theory Spec2Isabelle
  imports Main "HOL-Library.Sublist"
begin

section \<open>JavaScript values\<close>

text \<open>
  The types declared in \<^verbatim>\<open>commands/generate.ts\<close> (\<^verbatim>\<open>Field\<close>, \<^verbatim>\<open>Entity\<close>,
  \<^verbatim>\<open>Application\<close>) are erased when the program runs: what is built, sent and written is a plain
  JavaScript object. The values of the program are therefore modelled as they exist at run time.
  An object is the list of its own properties in insertion order, which is the order
  \<^verbatim>\<open>Object.keys\<close> and \<^verbatim>\<open>JSON.stringify\<close> follow for the (non-numeric) keys used here.
  Strings are \<^typ>\<open>string\<close>, so a character is one of the code units 0..255.
\<close>

datatype jsval =
    JUndefined
  | JNull
  | JBool bool
  | JString string
  | JArray "jsval list"
  | JObject "(string \<times> jsval) list"

text \<open>Truthiness, as the tests \<^verbatim>\<open>if (v)\<close> and \<^verbatim>\<open>!v\<close> read a value.\<close>

fun truthy :: "jsval \<Rightarrow> bool" where
  "truthy JUndefined = False"
| "truthy JNull = False"
| "truthy (JBool b) = b"
| "truthy (JString s) = (s \<noteq> [])"
| "truthy (JArray _) = True"
| "truthy (JObject _) = True"

text \<open>Property read \<^verbatim>\<open>o[k]\<close>: a missing property reads as \<^verbatim>\<open>undefined\<close>.\<close>

fun js_get :: "jsval \<Rightarrow> string \<Rightarrow> jsval" where
  "js_get (JObject kvs) k = (case map_of kvs k of None \<Rightarrow> JUndefined | Some v \<Rightarrow> v)"
| "js_get _ k = JUndefined"

text \<open>
  Defining the property \<^verbatim>\<open>k\<close> on a property list: an existing key keeps its position and takes
  the new value, a new key is appended. Object literals, spreads and \<^verbatim>\<open>JSON.parse\<close> all add
  their properties this way, left to right.
\<close>

fun js_set :: "(string \<times> jsval) list \<Rightarrow> string \<Rightarrow> jsval \<Rightarrow> (string \<times> jsval) list" where
  "js_set [] k v = [(k, v)]"
| "js_set ((k', v') # kvs) k v = (if k' = k then (k, v) # kvs else (k', v') # js_set kvs k v)"

definition js_literal :: "(string \<times> jsval) list \<Rightarrow> (string \<times> jsval) list" where
  "js_literal props = foldl (\<lambda>acc (k, v). js_set acc k v) [] props"

definition Object_keys :: "jsval \<Rightarrow> string list" where
  "Object_keys v = (case v of JObject kvs \<Rightarrow> map fst kvs | _ \<Rightarrow> [])"

definition js_fields :: "jsval \<Rightarrow> (string \<times> jsval) list" where
  "js_fields v = (case v of JObject kvs \<Rightarrow> kvs | _ \<Rightarrow> [])"

definition js_items :: "jsval \<Rightarrow> jsval list" where
  "js_items v = (case v of JArray vs \<Rightarrow> vs | _ \<Rightarrow> [])"

section \<open>The preset store\<close>

text \<open>The object literal \<^verbatim>\<open>PRESETS\<close>, property by property in the order written.\<close>

definition users_fields :: "jsval list" where
  "users_fields =
    [ JObject [(''name'', JString ''firstName''), (''type'', JString ''string''),
               (''show_in_form'', JBool True), (''show_in_table'', JBool True),
               (''editable'', JBool False), (''title'', JString ''First Name'')],
      JObject [(''name'', JString ''lastName''), (''type'', JString ''string''),
               (''show_in_form'', JBool True), (''show_in_table'', JBool True),
               (''editable'', JBool False), (''title'', JString ''Last Name'')],
      JObject [(''name'', JString ''phoneNumber''), (''type'', JString ''string''),
               (''show_in_form'', JBool True), (''show_in_table'', JBool True),
               (''editable'', JBool False), (''title'', JString ''Phone Number'')],
      JObject [(''name'', JString ''email''), (''type'', JString ''string''),
               (''show_in_form'', JBool True), (''show_in_table'', JBool True),
               (''editable'', JBool False), (''title'', JString ''E-mail'')],
      JObject [(''name'', JString ''role''), (''type'', JString ''enum''),
               (''options'', JArray [JString ''admin'', JString ''user'']),
               (''widget'', JString ''radio''),
               (''show_in_form'', JBool True), (''show_in_table'', JBool True),
               (''editable'', JBool False), (''title'', JString ''Role'')],
      JObject [(''name'', JString ''disabled''), (''type'', JString ''boolean''),
               (''show_in_form'', JBool True), (''show_in_table'', JBool True),
               (''editable'', JBool False), (''title'', JString ''Disabled'')],
      JObject [(''name'', JString ''avatar''), (''type'', JString ''images''),
               (''show_in_form'', JBool True), (''show_in_table'', JBool True),
               (''editable'', JBool False), (''title'', JString ''Avatar'')],
      JObject [(''name'', JString ''password''), (''type'', JString ''string''),
               (''editable'', JBool False), (''title'', JString ''Password''),
               (''show_in_form'', JBool False), (''show_in_table'', JBool False)],
      JObject [(''name'', JString ''emailVerified''), (''type'', JString ''boolean''),
               (''editable'', JBool False), (''title'', JString ''emailVerified''),
               (''show_in_form'', JBool False), (''show_in_table'', JBool False)],
      JObject [(''name'', JString ''emailVerificationToken''), (''type'', JString ''string''),
               (''editable'', JBool False), (''title'', JString ''emailVerificationToken''),
               (''show_in_form'', JBool False), (''show_in_table'', JBool False)],
      JObject [(''name'', JString ''emailVerificationTokenExpiresAt''),
               (''type'', JString ''datetime''),
               (''editable'', JBool False),
               (''title'', JString ''emailVerificationTokenExpiresAt''),
               (''show_in_form'', JBool False), (''show_in_table'', JBool False)],
      JObject [(''name'', JString ''passwordResetToken''), (''type'', JString ''string''),
               (''editable'', JBool False), (''title'', JString ''passwordResetToken''),
               (''show_in_form'', JBool False), (''show_in_table'', JBool False)],
      JObject [(''name'', JString ''passwordResetTokenExpiresAt''),
               (''type'', JString ''datetime''),
               (''editable'', JBool False),
               (''title'', JString ''passwordResetTokenExpiresAt''),
               (''show_in_form'', JBool False), (''show_in_table'', JBool False)],
      JObject [(''name'', JString ''provider''), (''type'', JString ''string''),
               (''editable'', JBool False), (''title'', JString ''provider''),
               (''show_in_form'', JBool False), (''show_in_table'', JBool False)] ]"

definition users_entity :: jsval where
  "users_entity =
     JObject [(''name'', JString ''users''), (''show_field'', JString ''firstName''),
              (''fields'', JArray users_fields)]"

definition PRESETS :: jsval where
  "PRESETS = JObject [(''blank'', JArray [users_entity])]"

text \<open>Reading the store: the entities of a preset, and the names of an entity's fields.\<close>

definition preset_entities :: "string \<Rightarrow> jsval list" where
  "preset_entities p = js_items (js_get PRESETS p)"

definition entity_fields :: "jsval \<Rightarrow> jsval list" where
  "entity_fields e = js_items (js_get e ''fields'')"

definition field_names :: "jsval \<Rightarrow> jsval list" where
  "field_names e = map (\<lambda>f. js_get f ''name'') (entity_fields e)"

definition stored_entities :: "jsval list" where
  "stored_entities = concat (map (\<lambda>p. preset_entities p) (Object_keys PRESETS))"

section \<open>JSON text\<close>

text \<open>
  \<^verbatim>\<open>JSON.stringify(value, null, 2)\<close> as ECMAScript defines it (SerializeJSONProperty,
  SerializeJSONObject, SerializeJSONArray, QuoteJSONString) with the gap of two spaces. The
  indentation is counted in levels; \<^verbatim>\<open>undefined\<close> has no text: it is left out of an object
  and written \<^verbatim>\<open>null\<close> inside an array.
\<close>

definition dquote :: char where
  "dquote = CHR 0x22"

definition bslash :: char where
  "bslash = CHR 0x5C"

definition newline :: char where
  "newline = CHR 0x0A"

definition hex_digit :: "nat \<Rightarrow> char" where
  "hex_digit d = (if d < 10 then char_of (48 + d) else char_of (87 + d))"

definition escape_char :: "char \<Rightarrow> string" where
  "escape_char c =
     (let n = (of_char c :: nat) in
      if n = 8 then [bslash, CHR ''b'']
      else if n = 9 then [bslash, CHR ''t'']
      else if n = 10 then [bslash, CHR ''n'']
      else if n = 12 then [bslash, CHR ''f'']
      else if n = 13 then [bslash, CHR ''r'']
      else if c = dquote then [bslash, dquote]
      else if c = bslash then [bslash, bslash]
      else if n < 32 then
        [bslash, CHR ''u'', CHR ''0'', CHR ''0'', hex_digit (n div 16), hex_digit (n mod 16)]
      else [c])"

definition QuoteJSONString :: "string \<Rightarrow> string" where
  "QuoteJSONString s = dquote # concat (map escape_char s) @ [dquote]"

definition indent :: "nat \<Rightarrow> string" where
  "indent d = replicate (2 * d) (CHR '' '')"

fun join :: "string \<Rightarrow> string list \<Rightarrow> string" where
  "join sep [] = []"
| "join sep [t] = t"
| "join sep (t # u # us) = t @ sep @ join sep (u # us)"

text \<open>
  The text of a non-empty array or object at level \<open>d\<close>: the parts one level deeper, each on a
  line of its own, and the closing bracket back at level \<open>d\<close>.
\<close>

definition wrap :: "char \<Rightarrow> char \<Rightarrow> nat \<Rightarrow> string list \<Rightarrow> string" where
  "wrap opening closing d partial =
     (if partial = [] then [opening, closing]
      else opening # newline # indent (Suc d)
           @ join (CHR '','' # newline # indent (Suc d)) partial
           @ newline # indent d @ [closing])"

fun SerializeJSONProperty :: "nat \<Rightarrow> jsval \<Rightarrow> string option"
  and SerializeElements :: "nat \<Rightarrow> jsval list \<Rightarrow> string list"
  and SerializeMembers :: "nat \<Rightarrow> (string \<times> jsval) list \<Rightarrow> string list"
where
  "SerializeJSONProperty d JUndefined = None"
| "SerializeJSONProperty d JNull = Some ''null''"
| "SerializeJSONProperty d (JBool b) = Some (if b then ''true'' else ''false'')"
| "SerializeJSONProperty d (JString s) = Some (QuoteJSONString s)"
| "SerializeJSONProperty d (JArray vs) =
     Some (wrap (CHR ''['') (CHR '']'') d (SerializeElements (Suc d) vs))"
| "SerializeJSONProperty d (JObject kvs) =
     Some (wrap (CHR ''{'') (CHR ''}'') d (SerializeMembers (Suc d) kvs))"
| "SerializeElements d [] = []"
| "SerializeElements d (v # vs) =
     (case SerializeJSONProperty d v of None \<Rightarrow> ''null'' | Some t \<Rightarrow> t)
       # SerializeElements d vs"
| "SerializeMembers d [] = []"
| "SerializeMembers d ((k, v) # kvs) =
     (case SerializeJSONProperty d v of
        None \<Rightarrow> SerializeMembers d kvs
      | Some t \<Rightarrow> (QuoteJSONString k @ '': '' @ t) # SerializeMembers d kvs)"

definition JSON_stringify :: "jsval \<Rightarrow> string option" where
  "JSON_stringify v = SerializeJSONProperty 0 v"

text \<open>
  \<^verbatim>\<open>JSON.parse\<close> for the texts above: strings with their escapes, the three literals, arrays
  and objects, with white space wherever JSON allows it. Numbers are left out (no value of
  this program holds one), and so is an escape naming a code unit above 255. The reader
  descends with a budget of nested calls; \<open>JSON_parse\<close> hands it more than a text of that length
  can use.
\<close>

definition is_ws :: "char \<Rightarrow> bool" where
  "is_ws c = (c = CHR '' '' \<or> c = CHR 0x09 \<or> c = CHR 0x0A \<or> c = CHR 0x0D)"

definition skip_ws :: "string \<Rightarrow> string" where
  "skip_ws s = dropWhile is_ws s"

definition hex_value :: "char \<Rightarrow> nat option" where
  "hex_value c =
     (let n = (of_char c :: nat) in
      if 48 \<le> n \<and> n \<le> 57 then Some (n - 48)
      else if 97 \<le> n \<and> n \<le> 102 then Some (n - 87)
      else if 65 \<le> n \<and> n \<le> 70 then Some (n - 55)
      else None)"

definition unescape :: "char \<Rightarrow> char option" where
  "unescape x =
     (if x = dquote then Some dquote
      else if x = bslash then Some bslash
      else if x = CHR ''/'' then Some (CHR ''/'')
      else if x = CHR ''b'' then Some (CHR 0x08)
      else if x = CHR ''f'' then Some (CHR 0x0C)
      else if x = CHR ''n'' then Some (CHR 0x0A)
      else if x = CHR ''r'' then Some (CHR 0x0D)
      else if x = CHR ''t'' then Some (CHR 0x09)
      else None)"

definition code_unit :: "char \<Rightarrow> char \<Rightarrow> char \<Rightarrow> char \<Rightarrow> char option" where
  "code_unit h1 h2 h3 h4 =
     (case (hex_value h1, hex_value h2, hex_value h3, hex_value h4) of
        (Some a, Some b, Some c, Some d) \<Rightarrow>
          (let n = ((a * 16 + b) * 16 + c) * 16 + d
           in if n < 256 then Some (char_of n) else None)
      | _ \<Rightarrow> None)"

definition consumed :: "'a \<Rightarrow> ('a list \<times> string) option \<Rightarrow> ('a list \<times> string) option" where
  "consumed x r = (case r of None \<Rightarrow> None | Some (xs, rest) \<Rightarrow> Some (x # xs, rest))"

text \<open>The characters of a string, read from just after its opening quote.\<close>

fun parse_chars :: "string \<Rightarrow> (string \<times> string) option" where
  "parse_chars [] = None"
| "parse_chars (c # cs) =
     (if c = dquote then Some ([], cs)
      else if c = bslash then
        (case cs of
           [] \<Rightarrow> None
         | x # r \<Rightarrow>
             if x = CHR ''u'' then
               (case r of
                  h1 # h2 # h3 # h4 # r' \<Rightarrow>
                    (case code_unit h1 h2 h3 h4 of
                       None \<Rightarrow> None
                     | Some ch \<Rightarrow> consumed ch (parse_chars r'))
                | _ \<Rightarrow> None)
             else
               (case unescape x of
                  None \<Rightarrow> None
                | Some ch \<Rightarrow> consumed ch (parse_chars r)))
      else if (of_char c :: nat) < 32 then None
      else consumed c (parse_chars cs))"

fun parse_value :: "nat \<Rightarrow> string \<Rightarrow> (jsval \<times> string) option"
  and parse_elements :: "nat \<Rightarrow> string \<Rightarrow> (jsval list \<times> string) option"
  and parse_members :: "nat \<Rightarrow> string \<Rightarrow> ((string \<times> jsval) list \<times> string) option"
where
  "parse_value 0 s = None"
| "parse_value (Suc n) s =
     (case skip_ws s of
        [] \<Rightarrow> None
      | c # cs \<Rightarrow>
          if c = dquote then
            (case parse_chars cs of None \<Rightarrow> None | Some (t, r) \<Rightarrow> Some (JString t, r))
          else if c = CHR ''['' then
            (case skip_ws cs of
               [] \<Rightarrow> None
             | b # r \<Rightarrow>
                 if b = CHR '']'' then Some (JArray [], r)
                 else (case parse_elements n cs of
                         None \<Rightarrow> None
                       | Some (vs, r') \<Rightarrow> Some (JArray vs, r')))
          else if c = CHR ''{'' then
            (case skip_ws cs of
               [] \<Rightarrow> None
             | b # r \<Rightarrow>
                 if b = CHR ''}'' then Some (JObject [], r)
                 else (case parse_members n cs of
                         None \<Rightarrow> None
                       | Some (kvs, r') \<Rightarrow> Some (JObject (js_literal kvs), r')))
          else if take 4 (c # cs) = ''true'' then Some (JBool True, drop 4 (c # cs))
          else if take 5 (c # cs) = ''false'' then Some (JBool False, drop 5 (c # cs))
          else if take 4 (c # cs) = ''null'' then Some (JNull, drop 4 (c # cs))
          else None)"
| "parse_elements 0 s = None"
| "parse_elements (Suc n) s =
     (case parse_value n s of
        None \<Rightarrow> None
      | Some (v, r) \<Rightarrow>
          (case skip_ws r of
             [] \<Rightarrow> None
           | b # r' \<Rightarrow>
               if b = CHR '','' then consumed v (parse_elements n r')
               else if b = CHR '']'' then Some ([v], r')
               else None))"
| "parse_members 0 s = None"
| "parse_members (Suc n) s =
     (case skip_ws s of
        [] \<Rightarrow> None
      | q # cs \<Rightarrow>
          if q \<noteq> dquote then None
          else
            (case parse_chars cs of
               None \<Rightarrow> None
             | Some (k, r) \<Rightarrow>
                 (case skip_ws r of
                    [] \<Rightarrow> None
                  | colon # r1 \<Rightarrow>
                      if colon \<noteq> CHR '':'' then None
                      else
                        (case parse_value n r1 of
                           None \<Rightarrow> None
                         | Some (v, r2) \<Rightarrow>
                             (case skip_ws r2 of
                                [] \<Rightarrow> None
                              | b # r3 \<Rightarrow>
                                  if b = CHR '','' then consumed (k, v) (parse_members n r3)
                                  else if b = CHR ''}'' then Some ([(k, v)], r3)
                                  else None)))))"

definition JSON_parse :: "string \<Rightarrow> jsval option" where
  "JSON_parse text =
     (case parse_value (Suc (length text)) text of
        None \<Rightarrow> None
      | Some (v, rest) \<Rightarrow> if skip_ws rest = [] then Some v else None)"

text \<open>
  The values that \<^verbatim>\<open>JSON.stringify\<close> writes in full: nothing \<^verbatim>\<open>undefined\<close> inside, and
  (as every JavaScript object has) no key twice in an object.
\<close>

fun json_ok :: "jsval \<Rightarrow> bool"
  and json_ok_elements :: "jsval list \<Rightarrow> bool"
  and json_ok_members :: "(string \<times> jsval) list \<Rightarrow> bool"
where
  "json_ok JUndefined = False"
| "json_ok JNull = True"
| "json_ok (JBool b) = True"
| "json_ok (JString s) = True"
| "json_ok (JArray vs) = json_ok_elements vs"
| "json_ok (JObject kvs) = (distinct (map fst kvs) \<and> json_ok_members kvs)"
| "json_ok_elements [] = True"
| "json_ok_elements (v # vs) = (json_ok v \<and> json_ok_elements vs)"
| "json_ok_members [] = True"
| "json_ok_members ((k, v) # kvs) = (json_ok v \<and> json_ok_members kvs)"

section \<open>The process and its surroundings\<close>

text \<open>
  What the process can observe and change: the file system, a map from paths to what \<^verbatim>\<open>stat\<close>
  reports there (a regular file with its content, a directory, or anything else, such as a
  socket or a FIFO), and the trace of its effects in the order they happen.
\<close>

datatype node = File string | Dir | Special

text \<open>
  The effects: a message on \<^verbatim>\<open>console.error\<close> in red, the prompts shown (by question name), a
  directory created, a request posted (address and JSON body), a response body stored in a
  file, an archive unpacked into a directory, a file removed, a file written with its text.
\<close>

datatype event =
    ErrorRed string
  | Prompt "string list"
  | Mkdir string
  | Post string jsval
  | Saved string string
  | Extract string string
  | Rm string
  | WriteFile string string

record world =
  files :: "string \<Rightarrow> node option"
  trace :: "event list"

text \<open>
  How a run ends: the action returns, \<^verbatim>\<open>process.exit(code)\<close> is called, or an awaited promise
  rejects and nothing catches it. Node (from version 15, which the import of
  \<^verbatim>\<open>stream/promises\<close> needs) ends the process with status 1 on an unhandled rejection.
\<close>

datatype failure = TransportError | FilesystemError | TypeError

datatype outcome = Finished | Exited nat | Unhandled failure

fun exit_status :: "outcome \<Rightarrow> nat" where
  "exit_status Finished = 0"
| "exit_status (Exited code) = code"
| "exit_status (Unhandled f) = 1"

text \<open>
  What the run is given from outside: the working directory and \<^verbatim>\<open>os.tmpdir()\<close>; the remote
  service, answering a request with the bytes of its response body, or with nothing on a
  network failure or a non-success status; the files an archive unpacks to, or nothing when
  it is not a readable archive; how often the user moves the cursor down before confirming
  a prompt; and whether the operating system refuses an operation for a reason the file map
  does not show (permissions, a missing parent directory, a full disk).
\<close>

datatype sysop = OpMkdir | OpOpen | OpExtract | OpRm | OpWriteFile

record env =
  cwd :: string
  tmpdir :: string
  service :: "string \<Rightarrow> jsval \<Rightarrow> string option"
  unzip :: "string \<Rightarrow> (string \<times> string) list option"
  moves :: "string \<Rightarrow> nat"
  os_fault :: "sysop \<Rightarrow> bool"

text \<open>\<^verbatim>\<open>path.join\<close> on segments that need no normalising.\<close>

definition path_join :: "string \<Rightarrow> string \<Rightarrow> string" where
  "path_join a b = a @ ''/'' @ b"

definition TEMP_FILE :: "env \<Rightarrow> string" where
  "TEMP_FILE e = path_join (tmpdir e) ''flatlogic.zip''"

definition URL :: string where
  "URL = ''https://flatlogic.com/projects/cli''"

definition emit :: "event \<Rightarrow> world \<Rightarrow> world" where
  "emit ev w = w\<lparr>trace := trace w @ [ev]\<rparr>"

subsection \<open>Library calls\<close>

text \<open>
  Each call returns the failure it rejects with, if any, and the world it leaves.
  \<^verbatim>\<open>fs.mkdir\<close> (not recursive) fails when anything is at the path.
\<close>

definition fs_mkdir :: "env \<Rightarrow> string \<Rightarrow> world \<Rightarrow> failure option \<times> world" where
  "fs_mkdir e p w =
     (if os_fault e OpMkdir then (Some FilesystemError, w)
      else
        (case files w p of
           Some existing \<Rightarrow> (Some FilesystemError, w)
         | None \<Rightarrow> (None, emit (Mkdir p) (w\<lparr>files := (files w)(p \<mapsto> Dir)\<rparr>))))"

text \<open>
  Opening a path for writing creates the file or empties the one that is there; it fails on
  a directory and on what is neither a file nor a directory.
\<close>

definition writable :: "(string \<Rightarrow> node option) \<Rightarrow> string \<Rightarrow> bool" where
  "writable fs p =
     (case fs p of
        None \<Rightarrow> True
      | Some (File old) \<Rightarrow> True
      | Some Dir \<Rightarrow> False
      | Some Special \<Rightarrow> False)"

text \<open>
  \<^verbatim>\<open>stream.pipeline(got.stream(url, {method: 'POST', json: body}), createWriteStream(p))\<close>:
  the request goes out, the file is opened for writing, and the response body is stored
  there. A failed request leaves the file as it was opened.
\<close>

definition pipeline :: "env \<Rightarrow> string \<Rightarrow> jsval \<Rightarrow> string \<Rightarrow> world \<Rightarrow> failure option \<times> world" where
  "pipeline e url body p w =
     (let w1 = emit (Post url body) w in
      if os_fault e OpOpen then (Some FilesystemError, w1)
      else if writable (files w1) p then
        (case service e url body of
           None \<Rightarrow> (Some TransportError, w1\<lparr>files := (files w1)(p \<mapsto> File [])\<rparr>)
         | Some bytes \<Rightarrow>
             (None, emit (Saved p bytes) (w1\<lparr>files := (files w1)(p \<mapsto> File bytes)\<rparr>)))
      else (Some FilesystemError, w1))"

fun write_entries ::
  "string \<Rightarrow> (string \<times> string) list \<Rightarrow> (string \<Rightarrow> node option) \<Rightarrow> (string \<Rightarrow> node option)"
where
  "write_entries dir [] fs = fs"
| "write_entries dir ((rel, content) # es) fs =
     write_entries dir es (fs(path_join dir rel \<mapsto> File content))"

text \<open>\<^verbatim>\<open>extract(archive, {dir})\<close>: the files of the archive are written below \<open>dir\<close>.\<close>

definition extract_zip :: "env \<Rightarrow> string \<Rightarrow> string \<Rightarrow> world \<Rightarrow> failure option \<times> world" where
  "extract_zip e archive dir w =
     (case files w archive of
        Some (File bytes) \<Rightarrow>
          (if os_fault e OpExtract then (Some FilesystemError, w)
           else
             (case unzip e bytes of
                None \<Rightarrow> (Some FilesystemError, w)
              | Some entries \<Rightarrow>
                  (None, emit (Extract archive dir)
                           (w\<lparr>files := write_entries dir entries (files w)\<rparr>))))
      | _ \<Rightarrow> (Some FilesystemError, w))"

text \<open>\<^verbatim>\<open>rm(p)\<close> without options: fails when nothing is there, and on a directory.\<close>

definition fs_rm :: "env \<Rightarrow> string \<Rightarrow> world \<Rightarrow> failure option \<times> world" where
  "fs_rm e p w =
     (if os_fault e OpRm then (Some FilesystemError, w)
      else
        (case files w p of
           None \<Rightarrow> (Some FilesystemError, w)
         | Some Dir \<Rightarrow> (Some FilesystemError, w)
         | Some other \<Rightarrow> (None, emit (Rm p) (w\<lparr>files := (files w)(p := None)\<rparr>))))"

definition fs_writeFile :: "env \<Rightarrow> string \<Rightarrow> string \<Rightarrow> world \<Rightarrow> failure option \<times> world" where
  "fs_writeFile e p content w =
     (if os_fault e OpWriteFile then (Some FilesystemError, w)
      else if writable (files w) p then
        (None, emit (WriteFile p content) (w\<lparr>files := (files w)(p \<mapsto> File content)\<rparr>))
      else (Some FilesystemError, w))"

subsection \<open>Option Resolver\<close>

text \<open>
  The \<^verbatim>\<open>options\<close> object that commander hands to the action: one property for each flag given
  on the command line, its value the string that followed the flag; a flag not given has no
  property.
\<close>

type_synonym options = "(string \<times> string) list"

definition options_object :: "options \<Rightarrow> jsval" where
  "options_object opts = JObject (js_literal (map (\<lambda>(k, s). (k, JString s)) opts))"

definition required_message :: "string \<Rightarrow> string" where
  "required_message option = ''error: option '' @ [CHR 0x27] @ ''--'' @ option @ [CHR 0x27] @ '' is required''"

text \<open>
  \<^verbatim>\<open>validateOption\<close>: the value, or the message on \<^verbatim>\<open>console.error\<close> and \<^verbatim>\<open>process.exit(1)\<close>;
  \<open>Inl\<close> carries the exit status.
\<close>

definition validateOption :: "jsval \<Rightarrow> string \<Rightarrow> world \<Rightarrow> (nat + jsval) \<times> world" where
  "validateOption arg option w =
     (if \<not> truthy (js_get arg option)
      then (Inl 1, emit (ErrorRed (required_message option)) w)
      else (Inr (js_get arg option), w))"

text \<open>\<^verbatim>\<open>cliMode\<close>: the properties of the literal are evaluated in the order written.\<close>

definition cliMode :: "jsval \<Rightarrow> world \<Rightarrow> (nat + jsval) \<times> world" where
  "cliMode opts w =
     (case validateOption opts ''frontend'' w of
        (Inl code, w1) \<Rightarrow> (Inl code, w1)
      | (Inr frontend, w1) \<Rightarrow>
     (case validateOption opts ''backend'' w1 of
        (Inl code, w2) \<Rightarrow> (Inl code, w2)
      | (Inr backend, w2) \<Rightarrow>
     (case validateOption opts ''db'' w2 of
        (Inl code, w3) \<Rightarrow> (Inl code, w3)
      | (Inr db, w3) \<Rightarrow>
     (case validateOption opts ''design'' w3 of
        (Inl code, w4) \<Rightarrow> (Inl code, w4)
      | (Inr design, w4) \<Rightarrow>
          (Inr (JObject (js_literal
                  [(''frontend'', frontend), (''backend'', backend), (''db'', db),
                   (''design'', design), (''entities'', js_get PRESETS ''blank'')])),
           w4)))))"

text \<open>
  The prompts of \<^verbatim>\<open>interactiveMode\<close>. inquirer answers a \<^verbatim>\<open>list\<close> question with the value of
  the choice under the cursor, which starts on the first choice and wraps around; the
  answers object has one property for each question, in the order asked.
\<close>

record question =
  qname :: string
  qtype :: string
  message :: "string option"
  choices :: "(string \<times> string) list"

definition questions :: "question list" where
  "questions =
    [ \<lparr>qname = ''frontend'', qtype = ''list'', message = Some ''Frontend framework'',
       choices = [(''React'', ''react'')]\<rparr>,
      \<lparr>qname = ''backend'', qtype = ''list'', message = Some ''Select backend stack'',
       choices = [(''NodeJS'', ''nodejs'')]\<rparr>,
      \<lparr>qname = ''db'', qtype = ''list'', message = Some ''Select database engine'',
       choices = [(''PostgreSQL'', ''postgresql'')]\<rparr>,
      \<lparr>qname = ''design'', qtype = ''list'', message = Some ''Choose design'',
       choices = [(''Classic'', ''classic'')]\<rparr>,
      \<lparr>qname = ''schemaPreset'', qtype = ''list'', message = None,
       choices = [(''Blank'', ''blank'')]\<rparr> ]"

definition answer :: "env \<Rightarrow> question \<Rightarrow> jsval" where
  "answer e q =
     (case choices q of
        [] \<Rightarrow> JUndefined
      | c # cs \<Rightarrow> JString (snd ((c # cs) ! (moves e (qname q) mod length (c # cs)))))"

definition inquirer_prompt :: "env \<Rightarrow> question list \<Rightarrow> world \<Rightarrow> jsval \<times> world" where
  "inquirer_prompt e qs w =
     (JObject (js_literal (map (\<lambda>q. (qname q, answer e q)) qs)),
      emit (Prompt (map qname qs)) w)"

text \<open>\<^verbatim>\<open>o[v]\<close> for a computed key; the keys computed here are strings.\<close>

definition js_index :: "jsval \<Rightarrow> jsval \<Rightarrow> jsval" where
  "js_index obj v = (case v of JString k \<Rightarrow> js_get obj k | _ \<Rightarrow> JUndefined)"

definition interactiveMode :: "env \<Rightarrow> world \<Rightarrow> (nat + jsval) \<times> world" where
  "interactiveMode e w =
     (case inquirer_prompt e questions w of
        (props, w1) \<Rightarrow>
          (Inr (JObject (js_literal
                  (js_fields props
                   @ [(''entities'', js_index PRESETS (js_get props ''schemaPreset''))]))),
           w1))"

subsection \<open>Project Materializer and the command\<close>

definition isDirectory :: "node \<Rightarrow> bool" where
  "isDirectory n = (n = Dir)"

definition isFile :: "node \<Rightarrow> bool" where
  "isFile n = (case n of File _ \<Rightarrow> True | _ \<Rightarrow> False)"

text \<open>
  \<^verbatim>\<open>pathExists\<close>: \<^verbatim>\<open>fs.stat\<close> rejects when nothing is at the path, and the \<^verbatim>\<open>catch\<close> returns
  \<^verbatim>\<open>false\<close>; when the \<^verbatim>\<open>if\<close> inside the \<^verbatim>\<open>try\<close> does not fire, the function ends without a
  \<^verbatim>\<open>return\<close>, that is with \<^verbatim>\<open>undefined\<close>.
\<close>

definition pathExists :: "(string \<Rightarrow> node option) \<Rightarrow> string \<Rightarrow> jsval" where
  "pathExists fs p =
     (case fs p of
        None \<Rightarrow> JBool False
      | Some stat \<Rightarrow> if isDirectory stat \<or> isFile stat then JBool True else JUndefined)"

definition exists_message :: "string \<Rightarrow> string" where
  "exists_message projectPath = ''error: folder '' @ projectPath @ '' already exists''"

text \<open>Lines 273 to 285 of the action: the five awaited calls, each run only if the one before resolved.\<close>

definition materialize :: "env \<Rightarrow> string \<Rightarrow> jsval \<Rightarrow> world \<Rightarrow> outcome \<times> world" where
  "materialize e projectPath app w =
     (case fs_mkdir e projectPath w of
        (Some f, w1) \<Rightarrow> (Unhandled f, w1)
      | (None, w1) \<Rightarrow>
     (case pipeline e URL (JObject (js_literal [(''schema'', app)])) (TEMP_FILE e) w1 of
        (Some f, w2) \<Rightarrow> (Unhandled f, w2)
      | (None, w2) \<Rightarrow>
     (case extract_zip e (TEMP_FILE e) projectPath w2 of
        (Some f, w3) \<Rightarrow> (Unhandled f, w3)
      | (None, w3) \<Rightarrow>
     (case fs_rm e (TEMP_FILE e) w3 of
        (Some f, w4) \<Rightarrow> (Unhandled f, w4)
      | (None, w4) \<Rightarrow>
     (case JSON_stringify app of
        None \<Rightarrow> (Unhandled TypeError, w4)
      | Some content \<Rightarrow>
     (case fs_writeFile e (path_join projectPath ''.flatlogicrc'') content w4 of
        (Some f, w5) \<Rightarrow> (Unhandled f, w5)
      | (None, w5) \<Rightarrow> (Finished, w5)))))))"

definition action :: "env \<Rightarrow> string \<Rightarrow> options \<Rightarrow> world \<Rightarrow> outcome \<times> world" where
  "action e name opts w =
     (let projectPath = path_join (cwd e) name in
      if truthy (pathExists (files w) projectPath)
      then (Exited 1, emit (ErrorRed (exists_message projectPath)) w)
      else
        (let options = options_object opts;
             hasArguments = (length (Object_keys options) \<noteq> 0)
         in case (if hasArguments then cliMode options w else interactiveMode e w) of
              (Inl code, w1) \<Rightarrow> (Exited code, w1)
            | (Inr props, w1) \<Rightarrow>
                (let app = JObject (js_literal ((''title'', JString name) # js_fields props))
                 in materialize e projectPath app w1)))"

text \<open>One invocation \<^verbatim>\<open>generate <name> [flags]\<close>, started on a file system with nothing done yet.\<close>

definition run :: "env \<Rightarrow> string \<Rightarrow> options \<Rightarrow> (string \<Rightarrow> node option) \<Rightarrow> outcome \<times> world" where
  "run e name opts fs = action e name opts \<lparr>files = fs, trace = []\<rparr>"

section \<open>Vocabulary of the properties\<close>

text \<open>The target path of an invocation, the sidecar file inside it, and the value of a flag.\<close>

definition target_path :: "env \<Rightarrow> string \<Rightarrow> string" where
  "target_path e name = path_join (cwd e) name"

definition sidecar_path :: "env \<Rightarrow> string \<Rightarrow> string" where
  "sidecar_path e name = path_join (target_path e name) ''.flatlogicrc''"

definition flag_value :: "options \<Rightarrow> string \<Rightarrow> jsval" where
  "flag_value opts k = js_get (options_object opts) k"

text \<open>The four required options in the order of the specification, and the first one missing.\<close>

definition required_options :: "string list" where
  "required_options = [''frontend'', ''backend'', ''db'', ''design'']"

definition first_missing :: "options \<Rightarrow> string option" where
  "first_missing opts = find (\<lambda>k. \<not> truthy (flag_value opts k)) required_options"

text \<open>What a run left in its trace: whether it prompted, what it posted, what it wrote.\<close>

fun is_prompt :: "event \<Rightarrow> bool" where
  "is_prompt (Prompt qs) = True"
| "is_prompt _ = False"

definition prompted :: "world \<Rightarrow> bool" where
  "prompted w = list_ex is_prompt (trace w)"

fun posted :: "event list \<Rightarrow> (string \<times> jsval) list" where
  "posted [] = []"
| "posted (Post url body # evs) = (url, body) # posted evs"
| "posted (ev # evs) = posted evs"

fun written :: "event list \<Rightarrow> (string \<times> string) list" where
  "written [] = []"
| "written (WriteFile p content # evs) = (p, content) # written evs"
| "written (ev # evs) = written evs"

definition entity_name :: "jsval \<Rightarrow> jsval" where
  "entity_name e = js_get e ''name''"

definition field_count :: "jsval \<Rightarrow> nat" where
  "field_count e = length (entity_fields e)"

text \<open>The nested calls the reader makes on the text of a value.\<close>

fun fuel :: "jsval \<Rightarrow> nat"
  and fuel_elements :: "jsval list \<Rightarrow> nat"
  and fuel_members :: "(string \<times> jsval) list \<Rightarrow> nat"
where
  "fuel JUndefined = 1"
| "fuel JNull = 1"
| "fuel (JBool b) = 1"
| "fuel (JString s) = 1"
| "fuel (JArray vs) = Suc (fuel_elements vs)"
| "fuel (JObject kvs) = Suc (fuel_members kvs)"
| "fuel_elements [] = 0"
| "fuel_elements (v # vs) = Suc (fuel v + fuel_elements vs)"
| "fuel_members [] = 0"
| "fuel_members ((k, v) # kvs) = Suc (fuel v + fuel_members kvs)"

text \<open>
  The \<^verbatim>\<open>Application\<close> object each mode ends up building, written out: from the flags, and
  from the answers to the prompts.
\<close>

definition flags_application :: "string \<Rightarrow> options \<Rightarrow> jsval" where
  "flags_application name opts =
     JObject [(''title'', JString name),
              (''frontend'', flag_value opts ''frontend''),
              (''backend'', flag_value opts ''backend''),
              (''db'', flag_value opts ''db''),
              (''design'', flag_value opts ''design''),
              (''entities'', JArray [users_entity])]"

definition prompt_application :: "string \<Rightarrow> jsval" where
  "prompt_application name =
     JObject [(''title'', JString name),
              (''frontend'', JString ''react''),
              (''backend'', JString ''nodejs''),
              (''db'', JString ''postgresql''),
              (''design'', JString ''classic''),
              (''schemaPreset'', JString ''blank''),
              (''entities'', JArray [users_entity])]"

definition prompt_names :: "string list" where
  "prompt_names = [''frontend'', ''backend'', ''db'', ''design'', ''schemaPreset'']"

text \<open>
  Surroundings in which every step of the materializer can succeed: nothing is refused, the
  service answers each request with an archive that unpacks, the temporary file can be
  written and is not the target itself, and the sidecar file can be written.
\<close>

definition surroundings_work :: "env \<Rightarrow> string \<Rightarrow> (string \<Rightarrow> node option) \<Rightarrow> bool" where
  "surroundings_work e name fs =
     ((\<forall>op. \<not> os_fault e op)
      \<and> (\<forall>body. \<exists>bytes entries. service e URL body = Some bytes \<and> unzip e bytes = Some entries)
      \<and> writable fs (TEMP_FILE e) \<and> TEMP_FILE e \<noteq> target_path e name
      \<and> writable fs (sidecar_path e name))"

text \<open>The characters a JSON value can start with.\<close>

definition value_start :: "char \<Rightarrow> bool" where
  "value_start c = (c = dquote \<or> c = CHR ''['' \<or> c = CHR ''{'' \<or> c = CHR ''t''
                    \<or> c = CHR ''f'' \<or> c = CHR ''n'')"

subsection \<open>Example invocations\<close>

text \<open>
  A working surrounding: the service answers every request, the archive holds one file,
  the user confirms each prompt at once, and nothing is refused.
\<close>

definition env0 :: env where
  "env0 = \<lparr>cwd = ''/home/user'', tmpdir = ''/tmp'',
            service = (\<lambda>url body. Some ''PK''),
            unzip = (\<lambda>bytes. Some [(''package.json'', ''{}'')]),
            moves = (\<lambda>q. 0), os_fault = (\<lambda>op. False)\<rparr>"

text \<open>The same with a service that answers no request.\<close>

definition env_down :: env where
  "env_down = env0\<lparr>service := (\<lambda>url body. None)\<rparr>"

definition fs0 :: "string \<Rightarrow> node option" where
  "fs0 = [''/home/user'' \<mapsto> Dir, ''/tmp'' \<mapsto> Dir]"

definition fs_taken :: "string \<Rightarrow> node option" where
  "fs_taken = fs0(''/home/user/app'' \<mapsto> Dir)"

definition fs_socket :: "string \<Rightarrow> node option" where
  "fs_socket = fs0(''/home/user/app'' \<mapsto> Special)"

definition all_flags :: options where
  "all_flags = [(''frontend'', ''react''), (''backend'', ''nodejs''),
                (''db'', ''postgresql''), (''design'', ''classic'')]"

section \<open>Objects built property by property\<close>

lemma js_set_not_Nil: "js_set acc k v \<noteq> []"
  by (induction acc k v rule: js_set.induct) simp_all

lemma js_literal_step: "foldl (\<lambda>acc (k, v). js_set acc k v) acc ((k, v) # kvs)
     = foldl (\<lambda>acc (k, v). js_set acc k v) (js_set acc k v) kvs"
  by simp

lemma foldl_js_set_not_Nil:
  "acc \<noteq> [] \<Longrightarrow> foldl (\<lambda>acc (k, v). js_set acc k v) acc kvs \<noteq> []"
proof (induction kvs arbitrary: acc)
  case Nil
  then show ?case by simp
next
  case (Cons kv kvs)
  obtain k v where kv: "kv = (k, v)" by (cases kv)
  have "js_set acc k v \<noteq> []" by (rule js_set_not_Nil)
  then show ?case unfolding kv js_literal_step by (rule Cons.IH)
qed

lemma js_literal_Nil_iff: "js_literal kvs = [] \<longleftrightarrow> kvs = []"
proof (cases kvs)
  case Nil
  then show ?thesis by (simp add: js_literal_def)
next
  case (Cons kv kvs')
  obtain k v where kv: "kv = (k, v)" by (cases kv)
  have "foldl (\<lambda>acc (k, v). js_set acc k v) (js_set [] k v) kvs' \<noteq> []"
    by (rule foldl_js_set_not_Nil) simp
  then show ?thesis unfolding Cons kv js_literal_def js_literal_step by simp
qed

lemma Object_keys_options: "Object_keys (options_object opts) = [] \<longleftrightarrow> opts = []"
  by (simp add: Object_keys_def options_object_def js_literal_Nil_iff)

lemma js_set_append: "k \<notin> fst ` set acc \<Longrightarrow> js_set acc k v = acc @ [(k, v)]"
  by (induction acc k v rule: js_set.induct) auto

lemma foldl_js_set_distinct:
  "distinct (map fst (acc @ kvs)) \<Longrightarrow> foldl (\<lambda>acc (k, v). js_set acc k v) acc kvs = acc @ kvs"
proof (induction kvs arbitrary: acc)
  case Nil
  then show ?case by simp
next
  case (Cons kv kvs)
  obtain k v where kv: "kv = (k, v)" by (cases kv)
  from Cons.prems have "k \<notin> fst ` set acc" by (auto simp: kv)
  then have eq: "js_set acc k v = acc @ [(k, v)]" by (rule js_set_append)
  from Cons.prems have "distinct (map fst ((acc @ [(k, v)]) @ kvs))" by (simp add: kv)
  then have "foldl (\<lambda>acc (k, v). js_set acc k v) (acc @ [(k, v)]) kvs = (acc @ [(k, v)]) @ kvs"
    by (rule Cons.IH)
  then show ?case unfolding kv js_literal_step eq by simp
qed

lemma js_literal_distinct: "distinct (map fst kvs) \<Longrightarrow> js_literal kvs = kvs"
  using foldl_js_set_distinct [of "[]" kvs] by (simp add: js_literal_def)

section \<open>Reading back what was written\<close>

subsection \<open>White space\<close>

lemma skip_ws_Nil [simp]: "skip_ws [] = []"
  by (simp add: skip_ws_def)

lemma skip_ws_ws: "is_ws c \<Longrightarrow> skip_ws (c # s) = skip_ws s"
  by (simp add: skip_ws_def)

lemma skip_ws_other: "\<not> is_ws c \<Longrightarrow> skip_ws (c # s) = c # s"
  by (simp add: skip_ws_def)

lemma skip_ws_newline [simp]: "skip_ws (newline # s) = skip_ws s"
  by (simp add: skip_ws_ws is_ws_def newline_def)

lemma skip_ws_space [simp]: "skip_ws (CHR '' '' # s) = skip_ws s"
  by (simp add: skip_ws_ws is_ws_def)

lemma skip_ws_replicate [simp]: "skip_ws (replicate n (CHR '' '') @ s) = skip_ws s"
  by (induction n) simp_all

lemma skip_ws_indent [simp]: "skip_ws (indent d @ s) = skip_ws s"
  by (simp add: indent_def)

lemma parse_value_skip: "skip_ws s = skip_ws s' \<Longrightarrow> parse_value n s = parse_value n s'"
  by (cases n) simp_all

lemma parse_elements_skip: "skip_ws s = skip_ws s' \<Longrightarrow> parse_elements n s = parse_elements n s'"
  by (cases n) (simp_all add: parse_value_skip [of s s'])

lemma parse_members_skip: "skip_ws s = skip_ws s' \<Longrightarrow> parse_members n s = parse_members n s'"
  by (cases n) simp_all

subsection \<open>Strings\<close>

lemma hex_value_digit: "d < 16 \<Longrightarrow> hex_value (hex_digit d) = Some d"
  by (simp add: hex_value_def hex_digit_def Let_def)

lemma code_unit_low:
  assumes "n < 32"
  shows "code_unit (CHR ''0'') (CHR ''0'') (hex_digit (n div 16)) (hex_digit (n mod 16))
           = Some (char_of n)"
proof -
  have a: "hex_value (CHR ''0'') = Some 0" by (simp add: hex_value_def)
  have b: "hex_value (hex_digit (n div 16)) = Some (n div 16)"
    using assms by (intro hex_value_digit) simp
  have c: "hex_value (hex_digit (n mod 16)) = Some (n mod 16)"
    by (intro hex_value_digit) simp
  have d: "n div 16 * 16 + n mod 16 = n" by simp
  show ?thesis using assms by (simp add: code_unit_def a b c d)
qed

lemma char_by_code: "of_char c = (n::nat) \<Longrightarrow> of_char d = n \<Longrightarrow> c = d"
  by (rule of_char_eqI [where ?'a = nat]) simp

lemma quote_codes: "of_char dquote = (34::nat)" "of_char bslash = (92::nat)"
  by (simp_all add: dquote_def bslash_def)

lemma parse_chars_escape: "parse_chars (escape_char c @ s) = consumed c (parse_chars s)"
proof -
  consider (b) "of_char c = (8::nat)" | (t) "of_char c = (9::nat)" | (n) "of_char c = (10::nat)"
    | (f) "of_char c = (12::nat)" | (r) "of_char c = (13::nat)" | (q) "c = dquote"
    | (s) "c = bslash"
    | (u) "(of_char c :: nat) < 32" "of_char c \<notin> {8, 9, 10, 12, 13 :: nat}"
    | (plain) "\<not> (of_char c :: nat) < 32" "c \<noteq> dquote" "c \<noteq> bslash"
    by auto
  then show ?thesis
  proof cases
    case b
    have "c = CHR 0x08" by (rule char_by_code [OF b]) simp
    then show ?thesis
      by (simp add: escape_char_def unescape_def dquote_def bslash_def)
  next
    case t
    have "c = CHR 0x09" by (rule char_by_code [OF t]) simp
    then show ?thesis
      by (simp add: escape_char_def unescape_def dquote_def bslash_def)
  next
    case n
    have "c = CHR 0x0A" by (rule char_by_code [OF n]) simp
    then show ?thesis
      by (simp add: escape_char_def unescape_def dquote_def bslash_def)
  next
    case f
    have "c = CHR 0x0C" by (rule char_by_code [OF f]) simp
    then show ?thesis
      by (simp add: escape_char_def unescape_def dquote_def bslash_def)
  next
    case r
    have "c = CHR 0x0D" by (rule char_by_code [OF r]) simp
    then show ?thesis
      by (simp add: escape_char_def unescape_def dquote_def bslash_def)
  next
    case q
    then show ?thesis
      by (simp add: escape_char_def unescape_def dquote_def bslash_def)
  next
    case s
    then show ?thesis
      by (simp add: escape_char_def unescape_def dquote_def bslash_def)
  next
    case u
    have nq: "c \<noteq> dquote" "c \<noteq> bslash"
      using u(1) quote_codes by auto
    have esc: "escape_char c = [bslash, CHR ''u'', CHR ''0'', CHR ''0'',
        hex_digit (of_char c div 16), hex_digit (of_char c mod 16)]"
      using u nq by (simp add: escape_char_def Let_def)
    have cu: "code_unit (CHR ''0'') (CHR ''0'') (hex_digit (of_char c div 16))
        (hex_digit (of_char c mod 16)) = Some c"
      using code_unit_low [OF u(1)] by simp
    have bs: "bslash \<noteq> dquote" by (simp add: dquote_def bslash_def)
    show ?thesis unfolding esc by (simp add: cu bs)
  next
    case plain
    have "escape_char c = [c]"
      using plain by (auto simp: escape_char_def Let_def)
    then show ?thesis using plain by simp
  qed
qed

lemma parse_chars_escaped:
  "parse_chars (concat (map escape_char s) @ dquote # rest) = Some (s, rest)"
  by (induction s) (simp_all add: parse_chars_escape consumed_def)

subsection \<open>Values\<close>

lemma punct_not_ws [simp]:
  "\<not> is_ws dquote" "\<not> is_ws (CHR ''['')" "\<not> is_ws (CHR '']'')" "\<not> is_ws (CHR ''{'')"
  "\<not> is_ws (CHR ''}'')" "\<not> is_ws (CHR '','')" "\<not> is_ws (CHR '':'')"
  "\<not> is_ws (CHR ''t'')" "\<not> is_ws (CHR ''f'')" "\<not> is_ws (CHR ''n'')"
  by (simp_all add: is_ws_def dquote_def)

lemma dquote_neq [simp]:
  "dquote \<noteq> CHR ''[''" "dquote \<noteq> CHR '']''" "dquote \<noteq> CHR ''{''" "dquote \<noteq> CHR ''}''"
  "CHR ''['' \<noteq> dquote" "CHR ''{'' \<noteq> dquote" "CHR ''t'' \<noteq> dquote" "CHR ''f'' \<noteq> dquote"
  "CHR ''n'' \<noteq> dquote"
  by (simp_all add: dquote_def)

lemma value_start_facts:
  "value_start c \<Longrightarrow> \<not> is_ws c \<and> c \<noteq> CHR '']'' \<and> c \<noteq> CHR ''}''"
  by (auto simp: value_start_def)

lemma serialize_None: "SerializeJSONProperty d v = None \<longleftrightarrow> v = JUndefined"
  by (cases v) simp_all

lemma serialize_start:
  "SerializeJSONProperty d v = Some t \<Longrightarrow> \<exists>c r. t = c # r \<and> value_start c"
  by (cases v) (auto simp: value_start_def wrap_def QuoteJSONString_def)

lemma elements_Nil: "SerializeElements d vs = [] \<longleftrightarrow> vs = []"
  by (cases vs) simp_all

lemma parse_value_literals:
  "parse_value (Suc m) (''null'' @ rest) = Some (JNull, rest)"
  "parse_value (Suc m) (''true'' @ rest) = Some (JBool True, rest)"
  "parse_value (Suc m) (''false'' @ rest) = Some (JBool False, rest)"
  by (simp_all add: skip_ws_other)

lemma parse_value_string:
  "parse_value (Suc m) (QuoteJSONString s @ rest) = Some (JString s, rest)"
  by (simp add: QuoteJSONString_def skip_ws_other parse_chars_escaped)

lemma parse_value_empty:
  "parse_value (Suc m) (CHR ''['' # CHR '']'' # rest) = Some (JArray [], rest)"
  "parse_value (Suc m) (CHR ''{'' # CHR ''}'' # rest) = Some (JObject [], rest)"
  by (simp_all add: skip_ws_other)

lemma parse_value_array:
  assumes "skip_ws cs = b # r" and "b \<noteq> CHR '']''"
  shows "parse_value (Suc m) (CHR ''['' # cs) =
           (case parse_elements m cs of None \<Rightarrow> None | Some (vs, r') \<Rightarrow> Some (JArray vs, r'))"
  using assms by (simp add: skip_ws_other)

lemma parse_value_object:
  assumes "skip_ws cs = b # r" and "b \<noteq> CHR ''}''"
  shows "parse_value (Suc m) (CHR ''{'' # cs) =
           (case parse_members m cs of
              None \<Rightarrow> None
            | Some (kvs, r') \<Rightarrow> Some (JObject (js_literal kvs), r'))"
  using assms by (simp add: skip_ws_other)

lemma parse_elements_more:
  assumes "parse_value m s = Some (v, CHR '','' # r)"
  shows "parse_elements (Suc m) s = consumed v (parse_elements m r)"
  using assms by (simp add: skip_ws_other)

lemma parse_elements_last:
  assumes "parse_value m s = Some (v, newline # indent d @ CHR '']'' # rest)"
  shows "parse_elements (Suc m) s = Some ([v], rest)"
  using assms by (simp add: skip_ws_other)

lemma parse_members_key:
  "parse_members (Suc m) (QuoteJSONString k @ CHR '':'' # CHR '' '' # s) =
     (case parse_value m s of
        None \<Rightarrow> None
      | Some (v, r2) \<Rightarrow>
          (case skip_ws r2 of
             [] \<Rightarrow> None
           | b # r3 \<Rightarrow>
               if b = CHR '','' then consumed (k, v) (parse_members m r3)
               else if b = CHR ''}'' then Some ([(k, v)], r3)
               else None))"
proof -
  have "parse_value m (CHR '' '' # s) = parse_value m s"
    by (rule parse_value_skip) simp
  then show ?thesis
    by (simp add: QuoteJSONString_def skip_ws_other parse_chars_escaped)
qed

lemma join_Cons: "ts \<noteq> [] \<Longrightarrow> join sep (t # ts) = t @ sep @ join sep ts"
  by (cases ts) simp_all

lemma members_ok_Nil: "json_ok_members kvs \<Longrightarrow> SerializeMembers d kvs = [] \<longleftrightarrow> kvs = []"
  by (cases kvs) (auto simp: serialize_None split: option.splits)

lemma join_start:
  assumes "ts = (c # r) # us"
  shows "\<exists>r'. join sep ts @ s = c # r'"
  using assms by (cases us) simp_all

lemma reader_inverts_printer:
  "json_ok v \<Longrightarrow> fuel v \<le> n \<Longrightarrow> SerializeJSONProperty d v = Some t \<Longrightarrow>
     parse_value n (t @ rest) = Some (v, rest)"
  "json_ok_elements vs \<Longrightarrow> vs \<noteq> [] \<Longrightarrow> fuel_elements vs \<le> n \<Longrightarrow>
     parse_elements n
       (join (CHR '','' # newline # indent d) (SerializeElements d vs)
          @ newline # indent d' @ CHR '']'' # rest) = Some (vs, rest)"
  "json_ok_members kvs \<Longrightarrow> kvs \<noteq> [] \<Longrightarrow> fuel_members kvs \<le> n \<Longrightarrow>
     parse_members n
       (join (CHR '','' # newline # indent d) (SerializeMembers d kvs)
          @ newline # indent d' @ CHR ''}'' # rest) = Some (kvs, rest)"
proof (induction v and vs and kvs arbitrary: n d t rest and n d d' rest and n d d' rest
       rule: json_ok_json_ok_elements_json_ok_members.induct)
  case 1
  then show ?case by simp
next
  case 2
  then obtain m where n: "n = Suc m" by (cases n) auto
  from 2 have t: "t = ''null''" by simp
  show ?case unfolding t n by (rule parse_value_literals)
next
  case (3 b)
  then obtain m where n: "n = Suc m" by (cases n) auto
  show ?case
  proof (cases b)
    case True
    with 3 have t: "t = ''true''" by simp
    from True have b: "b = True" by simp
    show ?thesis unfolding t n b by (rule parse_value_literals)
  next
    case False
    with 3 have t: "t = ''false''" by simp
    from False have b: "b = False" by simp
    show ?thesis unfolding t n b by (rule parse_value_literals)
  qed
next
  case (4 s)
  then obtain m where n: "n = Suc m" by (cases n) auto
  from 4 have t: "t = QuoteJSONString s" by simp
  show ?case unfolding t n by (rule parse_value_string)
next
  case (5 vs)
  from "5.prems" obtain m where n: "n = Suc m" and m: "fuel_elements vs \<le> m"
    by (cases n) auto
  show ?case
  proof (cases "vs = []")
    case True
    with "5.prems" have t: "t @ rest = CHR ''['' # CHR '']'' # rest" by (simp add: wrap_def)
    show ?thesis unfolding t n True by (rule parse_value_empty)
  next
    case False
    let ?ts = "SerializeElements (Suc d) vs"
    let ?J = "join (CHR '','' # newline # indent (Suc d)) ?ts @ newline # indent d @ CHR '']'' # rest"
    from False have ts: "?ts \<noteq> []" by (simp add: elements_Nil)
    have t: "t @ rest = CHR ''['' # newline # indent (Suc d) @ ?J"
      using "5.prems" ts by (auto simp: wrap_def)
    from "5.prems" have ok: "json_ok_elements vs" by simp
    have elems: "parse_elements m ?J = Some (vs, rest)"
      using ok False m by (rule "5.IH")
    obtain v0 vs0 where vs: "vs = v0 # vs0" using False by (cases vs) auto
    from ok vs have "SerializeJSONProperty (Suc d) v0 \<noteq> None"
      by (auto simp: serialize_None)
    then obtain t0 where t0: "SerializeJSONProperty (Suc d) v0 = Some t0" by auto
    then obtain c r where cr: "t0 = c # r" and c: "value_start c"
      using serialize_start by blast
    have "?ts = (c # r) # SerializeElements (Suc d) vs0" by (simp add: vs t0 cr)
    then obtain r' where J: "?J = c # r'" using join_start by blast
    from c have cfacts: "\<not> is_ws c" "c \<noteq> CHR '']''" using value_start_facts by auto
    have skip: "skip_ws (newline # indent (Suc d) @ ?J) = c # r'"
      by (simp add: J skip_ws_other cfacts)
    have same: "parse_elements m (newline # indent (Suc d) @ ?J) = parse_elements m ?J"
      by (rule parse_elements_skip) simp
    show ?thesis
      unfolding t n by (simp only: parse_value_array [OF skip cfacts(2)] same elems) simp
  qed
next
  case (6 kvs)
  from "6.prems" obtain m where n: "n = Suc m" and m: "fuel_members kvs \<le> m"
    by (cases n) auto
  from "6.prems" have ok: "json_ok_members kvs" and dist: "distinct (map fst kvs)" by simp_all
  show ?case
  proof (cases "kvs = []")
    case True
    with "6.prems" have t: "t @ rest = CHR ''{'' # CHR ''}'' # rest" by (simp add: wrap_def)
    show ?thesis unfolding t n True by (rule parse_value_empty)
  next
    case False
    let ?ts = "SerializeMembers (Suc d) kvs"
    let ?J = "join (CHR '','' # newline # indent (Suc d)) ?ts @ newline # indent d @ CHR ''}'' # rest"
    from False ok have ts: "?ts \<noteq> []" by (simp add: members_ok_Nil)
    have t: "t @ rest = CHR ''{'' # newline # indent (Suc d) @ ?J"
      using "6.prems" ts by (auto simp: wrap_def)
    have mems: "parse_members m ?J = Some (kvs, rest)"
      using ok False m by (rule "6.IH")
    obtain k0 v0 kvs0 where kvs: "kvs = (k0, v0) # kvs0" using False by (cases kvs) auto
    from ok kvs have "SerializeJSONProperty (Suc d) v0 \<noteq> None"
      by (auto simp: serialize_None)
    then obtain t0 where t0: "SerializeJSONProperty (Suc d) v0 = Some t0" by auto
    have "?ts = (dquote # tl (QuoteJSONString k0 @ '': '' @ t0)) # SerializeMembers (Suc d) kvs0"
      by (simp add: kvs t0 QuoteJSONString_def)
    then obtain r' where J: "?J = dquote # r'" using join_start by blast
    have skip: "skip_ws (newline # indent (Suc d) @ ?J) = dquote # r'"
      by (simp add: J skip_ws_other)
    have same: "parse_members m (newline # indent (Suc d) @ ?J) = parse_members m ?J"
      by (rule parse_members_skip) simp
    have lit: "js_literal kvs = kvs" using dist by (rule js_literal_distinct)
    show ?thesis
      unfolding t n by (simp only: parse_value_object [OF skip dquote_neq(4)] same mems) (simp add: lit)
  qed
next
  case 7
  then show ?case by simp
next
  case (8 v vs)
  from "8.prems" obtain m where n: "n = Suc m" and mv: "fuel v \<le> m" and mvs: "fuel_elements vs \<le> m"
    by (cases n) auto
  from "8.prems" have okv: "json_ok v" and okvs: "json_ok_elements vs" by simp_all
  from okv obtain t0 where t0: "SerializeJSONProperty d v = Some t0"
    using serialize_None [of d v] by (cases "SerializeJSONProperty d v") auto
  show ?case
  proof (cases "vs = []")
    case True
    have "parse_value m (t0 @ newline # indent d' @ CHR '']'' # rest)
            = Some (v, newline # indent d' @ CHR '']'' # rest)"
      using okv mv t0 by (rule "8.IH"(1))
    then have "parse_elements (Suc m) (t0 @ newline # indent d' @ CHR '']'' # rest) = Some ([v], rest)"
      by (rule parse_elements_last)
    then show ?thesis by (simp add: True t0 n)
  next
    case False
    let ?sep = "CHR '','' # newline # indent d"
    let ?J = "join ?sep (SerializeElements d vs) @ newline # indent d' @ CHR '']'' # rest"
    from False have ts: "SerializeElements d vs \<noteq> []" by (simp add: elements_Nil)
    have shape: "join ?sep (SerializeElements d (v # vs)) @ newline # indent d' @ CHR '']'' # rest
                 = t0 @ CHR '','' # (newline # indent d @ ?J)"
      using ts by (simp add: t0 join_Cons)
    have "parse_value m (t0 @ CHR '','' # (newline # indent d @ ?J))
            = Some (v, CHR '','' # (newline # indent d @ ?J))"
      using okv mv t0 by (rule "8.IH"(1))
    then have step: "parse_elements (Suc m) (t0 @ CHR '','' # (newline # indent d @ ?J))
            = consumed v (parse_elements m (newline # indent d @ ?J))"
      by (rule parse_elements_more)
    have same: "parse_elements m (newline # indent d @ ?J) = parse_elements m ?J"
      by (rule parse_elements_skip) simp
    have "parse_elements m ?J = Some (vs, rest)"
      using okvs False mvs by (rule "8.IH"(2))
    then show ?thesis
      unfolding shape n step same by (simp add: consumed_def)
  qed
next
  case 9
  then show ?case by simp
next
  case (10 k v kvs)
  from "10.prems" obtain m where n: "n = Suc m" and mv: "fuel v \<le> m" and mvs: "fuel_members kvs \<le> m"
    by (cases n) auto
  from "10.prems" have okv: "json_ok v" and okvs: "json_ok_members kvs" by simp_all
  from okv obtain t0 where t0: "SerializeJSONProperty d v = Some t0"
    using serialize_None [of d v] by (cases "SerializeJSONProperty d v") auto
  show ?case
  proof (cases "kvs = []")
    case True
    have pv: "parse_value m (t0 @ newline # indent d' @ CHR ''}'' # rest)
            = Some (v, newline # indent d' @ CHR ''}'' # rest)"
      using okv mv t0 by (rule "10.IH"(1))
    have "parse_members (Suc m)
            (QuoteJSONString k @ CHR '':'' # CHR '' '' # (t0 @ newline # indent d' @ CHR ''}'' # rest))
          = Some ([(k, v)], rest)"
      unfolding parse_members_key pv by (simp add: skip_ws_other)
    then show ?thesis by (simp add: True t0 n)
  next
    case False
    let ?sep = "CHR '','' # newline # indent d"
    let ?J = "join ?sep (SerializeMembers d kvs) @ newline # indent d' @ CHR ''}'' # rest"
    from False okvs have ts: "SerializeMembers d kvs \<noteq> []" by (simp add: members_ok_Nil)
    have shape: "join ?sep (SerializeMembers d ((k, v) # kvs)) @ newline # indent d' @ CHR ''}'' # rest
                 = QuoteJSONString k @ CHR '':'' # CHR '' '' # (t0 @ CHR '','' # (newline # indent d @ ?J))"
      using ts by (simp add: t0 join_Cons)
    have pv: "parse_value m (t0 @ CHR '','' # (newline # indent d @ ?J))
            = Some (v, CHR '','' # (newline # indent d @ ?J))"
      using okv mv t0 by (rule "10.IH"(1))
    have same: "parse_members m (newline # indent d @ ?J) = parse_members m ?J"
      by (rule parse_members_skip) simp
    have rest: "parse_members m ?J = Some (kvs, rest)"
      using okvs False mvs by (rule "10.IH"(2))
    show ?thesis
      unfolding shape n parse_members_key pv by (simp add: skip_ws_other same rest consumed_def)
  qed
qed

lemma fuel_bounded:
  "json_ok v \<Longrightarrow> SerializeJSONProperty d v = Some t \<Longrightarrow> fuel v \<le> length t"
  "json_ok_elements vs \<Longrightarrow> sep \<noteq> [] \<Longrightarrow>
     fuel_elements vs \<le> Suc (length (join sep (SerializeElements d vs)))"
  "json_ok_members kvs \<Longrightarrow> sep \<noteq> [] \<Longrightarrow>
     fuel_members kvs \<le> Suc (length (join sep (SerializeMembers d kvs)))"
proof (induction v and vs and kvs arbitrary: d t and d sep and d sep
       rule: json_ok_json_ok_elements_json_ok_members.induct)
  case 1
  then show ?case by simp
next
  case 2
  then show ?case by auto
next
  case (3 b)
  then show ?case by auto
next
  case (4 s)
  then show ?case by (auto simp: QuoteJSONString_def)
next
  case (5 vs)
  from "5.prems" have ok: "json_ok_elements vs" by simp
  have "fuel_elements vs
          \<le> Suc (length (join (CHR '','' # newline # indent (Suc d)) (SerializeElements (Suc d) vs)))"
    using ok by (rule "5.IH") simp
  moreover have "vs = [] \<Longrightarrow> fuel_elements vs = 0" by simp
  ultimately show ?case using "5.prems" by (auto simp: wrap_def elements_Nil)
next
  case (6 kvs)
  from "6.prems" have ok: "json_ok_members kvs" by simp
  have "fuel_members kvs
          \<le> Suc (length (join (CHR '','' # newline # indent (Suc d)) (SerializeMembers (Suc d) kvs)))"
    using ok by (rule "6.IH") simp
  moreover have "kvs = [] \<Longrightarrow> fuel_members kvs = 0" by simp
  ultimately show ?case using "6.prems" ok by (auto simp: wrap_def members_ok_Nil)
next
  case 7
  then show ?case by simp
next
  case (8 v vs)
  from "8.prems" have okv: "json_ok v" and okvs: "json_ok_elements vs" by simp_all
  from okv obtain t0 where t0: "SerializeJSONProperty d v = Some t0"
    using serialize_None [of d v] by (cases "SerializeJSONProperty d v") auto
  have v: "fuel v \<le> length t0" using okv t0 by (rule "8.IH"(1))
  have vs: "fuel_elements vs \<le> Suc (length (join sep (SerializeElements d vs)))"
    using okvs "8.prems"(2) by (rule "8.IH"(2))
  from "8.prems"(2) have sep: "1 \<le> length sep" by (cases sep) auto
  show ?case
  proof (cases "vs = []")
    case True
    with v show ?thesis by (simp add: t0)
  next
    case False
    then have "SerializeElements d vs \<noteq> []" by (simp add: elements_Nil)
    then show ?thesis using v vs sep by (simp add: t0 join_Cons)
  qed
next
  case 9
  then show ?case by simp
next
  case (10 k v kvs)
  from "10.prems" have okv: "json_ok v" and okvs: "json_ok_members kvs" by simp_all
  from okv obtain t0 where t0: "SerializeJSONProperty d v = Some t0"
    using serialize_None [of d v] by (cases "SerializeJSONProperty d v") auto
  have v: "fuel v \<le> length t0" using okv t0 by (rule "10.IH"(1))
  have vs: "fuel_members kvs \<le> Suc (length (join sep (SerializeMembers d kvs)))"
    using okvs "10.prems"(2) by (rule "10.IH"(2))
  from "10.prems"(2) have sep: "1 \<le> length sep" by (cases sep) auto
  show ?case
  proof (cases "kvs = []")
    case True
    with v show ?thesis by (simp add: t0)
  next
    case False
    with okvs have "SerializeMembers d kvs \<noteq> []" by (simp add: members_ok_Nil)
    then show ?thesis using v vs sep by (simp add: t0 join_Cons)
  qed
qed

lemma JSON_roundtrip:
  assumes "json_ok v"
  shows "\<exists>t. JSON_stringify v = Some t \<and> JSON_parse t = Some v"
proof -
  from assms obtain t where t: "SerializeJSONProperty 0 v = Some t"
    using serialize_None [of 0 v] by (cases "SerializeJSONProperty 0 v") auto
  have "fuel v \<le> length t" using assms t by (rule fuel_bounded(1))
  then have "fuel v \<le> Suc (length t)" by simp
  with assms have "parse_value (Suc (length t)) (t @ []) = Some (v, [])"
    using t by (rule reader_inverts_printer(1))
  then have "JSON_parse t = Some v" by (simp add: JSON_parse_def)
  with t show ?thesis by (simp add: JSON_stringify_def)
qed

section \<open>The run, step by step\<close>

lemma run_target_taken:
  "truthy (pathExists fs (target_path e name)) \<Longrightarrow>
   run e name opts fs =
     (Exited 1, \<lparr>files = fs, trace = [ErrorRed (exists_message (target_path e name))]\<rparr>)"
  by (simp add: run_def action_def target_path_def emit_def)


lemma run_mode:
  "\<not> truthy (pathExists fs (target_path e name)) \<Longrightarrow>
   run e name opts fs =
     (case (if opts \<noteq> [] then cliMode (options_object opts) \<lparr>files = fs, trace = []\<rparr>
            else interactiveMode e \<lparr>files = fs, trace = []\<rparr>) of
        (Inl code, w1) \<Rightarrow> (Exited code, w1)
      | (Inr props, w1) \<Rightarrow>
          materialize e (target_path e name)
            (JObject (js_literal ((''title'', JString name) # js_fields props))) w1)"
  by (cases "opts = []")
     (simp_all add: run_def action_def target_path_def Object_keys_options Let_def
        split: prod.split sum.split)

lemma cliMode_missing:
  "first_missing opts = Some k \<Longrightarrow>
   cliMode (options_object opts) w = (Inl 1, emit (ErrorRed (required_message k)) w)"
  by (auto simp: first_missing_def required_options_def flag_value_def cliMode_def
      validateOption_def split: if_splits)

lemma cliMode_complete:
  "first_missing opts = None \<Longrightarrow>
   cliMode (options_object opts) w =
     (Inr (JObject [(''frontend'', flag_value opts ''frontend''),
                    (''backend'', flag_value opts ''backend''),
                    (''db'', flag_value opts ''db''),
                    (''design'', flag_value opts ''design''),
                    (''entities'', JArray [users_entity])]), w)"
  by (auto simp: first_missing_def required_options_def flag_value_def cliMode_def
      validateOption_def js_literal_def PRESETS_def split: if_splits)

lemma interactiveMode_result:
  "interactiveMode e w =
     (Inr (JObject [(''frontend'', JString ''react''), (''backend'', JString ''nodejs''),
                    (''db'', JString ''postgresql''), (''design'', JString ''classic''),
                    (''schemaPreset'', JString ''blank''),
                    (''entities'', JArray [users_entity])]),
      emit (Prompt [''frontend'', ''backend'', ''db'', ''design'', ''schemaPreset'']) w)"
  by (simp add: interactiveMode_def inquirer_prompt_def questions_def answer_def js_literal_def
      js_fields_def js_index_def PRESETS_def)

lemma written_append: "written (xs @ ys) = written xs @ written ys"
  by (induction xs rule: written.induct) simp_all

lemma posted_append: "posted (xs @ ys) = posted xs @ posted ys"
  by (induction xs rule: posted.induct) simp_all

lemmas step_defs = fs_mkdir_def pipeline_def extract_zip_def fs_rm_def fs_writeFile_def emit_def

lemma path_join_neq_dir [simp]: "path_join dir rel \<noteq> dir" "dir \<noteq> path_join dir rel"
  by (simp_all add: path_join_def)

lemma write_entries_dir: "write_entries dir es fs dir = fs dir"
  by (induction es arbitrary: fs) auto

lemma write_entries_writable:
  "writable fs q \<Longrightarrow> writable (write_entries dir es fs) q"
  by (induction es arbitrary: fs) (auto simp: writable_def)

lemma write_entries_file:
  "fs q = Some (File c) \<Longrightarrow> \<exists>c'. write_entries dir es fs q = Some (File c')"
proof (induction es arbitrary: fs c)
  case Nil
  then show ?case by simp
next
  case (Cons rc es)
  obtain rel content where rc: "rc = (rel, content)" by (cases rc)
  have "\<exists>c0. (fs(path_join dir rel \<mapsto> File content)) q = Some (File c0)"
    using Cons.prems by simp
  then obtain c0 where "(fs(path_join dir rel \<mapsto> File content)) q = Some (File c0)" ..
  then show ?case unfolding rc write_entries.simps by (rule Cons.IH)
qed

lemma sidecar_not_temp: "path_join P ''.flatlogicrc'' \<noteq> path_join T ''flatlogic.zip''"
proof
  assume "path_join P ''.flatlogicrc'' = path_join T ''flatlogic.zip''"
  then have "last (path_join P ''.flatlogicrc'') = last (path_join T ''flatlogic.zip'')" by simp
  then show False by (simp add: path_join_def)
qed

lemma materialize_success:
  assumes "\<forall>op. \<not> os_fault e op"
    and "files w P = None"
    and "writable (files w) (TEMP_FILE e)"
    and "TEMP_FILE e \<noteq> P"
    and "writable (files w) (path_join P ''.flatlogicrc'')"
    and "service e URL (JObject [(''schema'', app)]) = Some bytes"
    and "unzip e bytes = Some entries"
    and "JSON_stringify app = Some content"
  shows "materialize e P app w =
     (Finished,
      \<lparr>files = ((write_entries P entries ((files w)(P \<mapsto> Dir, TEMP_FILE e \<mapsto> File bytes)))
                  (TEMP_FILE e := None))(path_join P ''.flatlogicrc'' \<mapsto> File content),
       trace = trace w @
         [Mkdir P, Post URL (JObject [(''schema'', app)]), Saved (TEMP_FILE e) bytes,
          Extract (TEMP_FILE e) P, Rm (TEMP_FILE e),
          WriteFile (path_join P ''.flatlogicrc'') content]\<rparr>)"
proof -
  let ?fs1 = "(files w)(P \<mapsto> Dir, TEMP_FILE e \<mapsto> File bytes)"
  let ?fs2 = "write_entries P entries ?fs1"
  obtain c' where temp: "?fs2 (TEMP_FILE e) = Some (File c')"
    using write_entries_file [of ?fs1 "TEMP_FILE e" bytes P entries] by auto
  have "writable ?fs1 (path_join P ''.flatlogicrc'')"
    using assms(5) by (simp add: writable_def)
  then have "writable ?fs2 (path_join P ''.flatlogicrc'')"
    by (rule write_entries_writable)
  then have side: "writable (?fs2(TEMP_FILE e := None)) (path_join P ''.flatlogicrc'')"
    by (simp add: writable_def)
  have w1: "writable ((files w)(P \<mapsto> Dir)) (TEMP_FILE e)"
    using assms(3,4) by (simp add: writable_def)
  show ?thesis
    using assms(1,2,4,6,7,8) temp side w1
    by (simp add: materialize_def step_defs js_literal_def Let_def)
qed

lemma materialize_Finished:
  assumes "materialize e P app w = (Finished, w')"
  shows "\<exists>bytes content.
           service e URL (JObject [(''schema'', app)]) = Some bytes
         \<and> JSON_stringify app = Some content
         \<and> trace w' = trace w @
             [Mkdir P, Post URL (JObject [(''schema'', app)]), Saved (TEMP_FILE e) bytes,
              Extract (TEMP_FILE e) P, Rm (TEMP_FILE e),
              WriteFile (path_join P ''.flatlogicrc'') content]
         \<and> files w' (path_join P ''.flatlogicrc'') = Some (File content)"
  using assms
  by (auto simp: materialize_def step_defs js_literal_def Let_def
      split: if_splits option.splits node.splits prod.splits)

lemma materialize_not_Finished:
  assumes "materialize e P app w = (out, w')" and "out \<noteq> Finished"
  shows "(\<exists>f. out = Unhandled f) \<and> written (trace w') = written (trace w)
         \<and> (files w P \<noteq> None \<longrightarrow> out = Unhandled FilesystemError \<and> w' = w)"
  using assms
  by (auto simp: materialize_def step_defs js_literal_def Let_def written_append
      split: if_splits option.splits node.splits prod.splits)

lemma materialize_service_down:
  assumes "service e URL (JObject [(''schema'', app)]) = None"
  shows "fst (materialize e P app w) \<noteq> Finished"
  using assms
  by (auto simp: materialize_def step_defs js_literal_def Let_def
      split: if_splits option.splits node.splits prod.splits)


lemma materialize_Finished_files:
  assumes "materialize e P app w = (Finished, w')"
  shows "files w' P = Some Dir \<and> files w' (TEMP_FILE e) = None"
proof -
  have side: "path_join P ''.flatlogicrc'' \<noteq> TEMP_FILE e"
    unfolding TEMP_FILE_def by (rule sidecar_not_temp)
  have dir: "\<And>es fs. write_entries P es fs P = fs P" by (rule write_entries_dir)
  show ?thesis
    using assms side
    by (auto simp: materialize_def step_defs js_literal_def Let_def writable_def dir
        split: if_splits option.splits node.splits prod.splits)
qed

lemma materialize_trace:
  "\<exists>evs. trace (snd (materialize e P app w)) = trace w @ evs
        \<and> \<not> list_ex is_prompt evs \<and> (\<forall>m. ErrorRed m \<notin> set evs)
        \<and> (posted evs = [] \<or> posted evs = [(URL, JObject [(''schema'', app)])])"
  by (auto simp: materialize_def step_defs js_literal_def Let_def
      split: if_splits option.splits node.splits prod.splits)

lemma materialize_taken:
  "files w P = Some n \<Longrightarrow> materialize e P app w = (Unhandled FilesystemError, w)"
  by (simp add: materialize_def fs_mkdir_def)

lemma final_files:
  fixes e P entries fs bytes content
  defines "F \<equiv> ((write_entries P entries (fs(P \<mapsto> Dir, TEMP_FILE e \<mapsto> File bytes)))
                  (TEMP_FILE e := None))(path_join P ''.flatlogicrc'' \<mapsto> File content)"
  assumes "TEMP_FILE e \<noteq> P"
  shows "F P = Some Dir" and "F (TEMP_FILE e) = None"
    and "F (path_join P ''.flatlogicrc'') = Some (File content)"
proof -
  have "path_join P ''.flatlogicrc'' \<noteq> TEMP_FILE e"
    unfolding TEMP_FILE_def by (rule sidecar_not_temp)
  then show "F (TEMP_FILE e) = None" by (simp add: F_def)
  show "F (path_join P ''.flatlogicrc'') = Some (File content)" by (simp add: F_def)
  have "write_entries P entries (fs(P \<mapsto> Dir, TEMP_FILE e \<mapsto> File bytes)) P = Some Dir"
    using assms(2) by (simp add: write_entries_dir)
  then show "F P = Some Dir" using assms(2) by (simp add: F_def)
qed

lemma stringify_parse:
  assumes "json_ok v" and "JSON_stringify v = Some t"
  shows "JSON_parse t = Some v"
  using JSON_roundtrip [OF assms(1)] assms(2) by auto

lemma materialize_ok:
  assumes "\<forall>op. \<not> os_fault e op"
    and "fs P = None"
    and "writable fs (TEMP_FILE e)"
    and "TEMP_FILE e \<noteq> P"
    and "writable fs (path_join P ''.flatlogicrc'')"
    and "\<forall>body. \<exists>bytes entries. service e URL body = Some bytes \<and> unzip e bytes = Some entries"
    and "json_ok app"
  shows "\<exists>bytes content w'.
           materialize e P app \<lparr>files = fs, trace = tr\<rparr> = (Finished, w')
         \<and> trace w' = tr @
             [Mkdir P, Post URL (JObject [(''schema'', app)]), Saved (TEMP_FILE e) bytes,
              Extract (TEMP_FILE e) P, Rm (TEMP_FILE e),
              WriteFile (path_join P ''.flatlogicrc'') content]
         \<and> files w' P = Some Dir \<and> files w' (TEMP_FILE e) = None
         \<and> files w' (path_join P ''.flatlogicrc'') = Some (File content)
         \<and> JSON_parse content = Some app"
proof -
  from assms(6) obtain bytes entries where
    srv: "service e URL (JObject [(''schema'', app)]) = Some bytes"
    and zip: "unzip e bytes = Some entries" by blast
  from JSON_roundtrip [OF assms(7)] obtain content where
    str: "JSON_stringify app = Some content" and parsed: "JSON_parse content = Some app" by blast
  have "materialize e P app \<lparr>files = fs, trace = tr\<rparr> =
     (Finished,
      \<lparr>files = ((write_entries P entries (fs(P \<mapsto> Dir, TEMP_FILE e \<mapsto> File bytes)))
                  (TEMP_FILE e := None))(path_join P ''.flatlogicrc'' \<mapsto> File content),
       trace = tr @
         [Mkdir P, Post URL (JObject [(''schema'', app)]), Saved (TEMP_FILE e) bytes,
          Extract (TEMP_FILE e) P, Rm (TEMP_FILE e),
          WriteFile (path_join P ''.flatlogicrc'') content]\<rparr>)"
    using materialize_success
      [of e "\<lparr>files = fs, trace = tr\<rparr>" P app bytes entries content]
      assms(1-5) srv zip str
    by simp
  then show ?thesis
    using final_files [of e P entries fs bytes content, OF assms(4)] parsed by simp
qed

subsection \<open>Messages and flags\<close>

lemma messages_differ: "required_message k \<noteq> exists_message P"
proof
  assume "required_message k = exists_message P"
  then have "required_message k ! 7 = exists_message P ! 7" by simp
  then show False by (simp add: required_message_def exists_message_def)
qed

lemma first_missing_empty: "first_missing [] = Some ''frontend''"
  by (simp add: first_missing_def required_options_def flag_value_def options_object_def
      js_literal_def)

lemma first_missing_None:
  "first_missing opts = None \<longleftrightarrow>
     truthy (flag_value opts ''frontend'') \<and> truthy (flag_value opts ''backend'')
     \<and> truthy (flag_value opts ''db'') \<and> truthy (flag_value opts ''design'')"
  by (auto simp: first_missing_def required_options_def split: if_splits)

lemma js_set_mem: "(k', v') \<in> set (js_set acc k v) \<Longrightarrow> (k', v') \<in> set acc \<or> (k', v') = (k, v)"
  by (induction acc k v rule: js_set.induct) (auto split: if_splits)

lemma foldl_js_set_mem:
  "kv \<in> set (foldl (\<lambda>acc (k, v). js_set acc k v) acc kvs) \<Longrightarrow> kv \<in> set acc \<union> set kvs"
proof (induction kvs arbitrary: acc)
  case Nil
  then show ?case by simp
next
  case (Cons a kvs)
  obtain k v where a: "a = (k, v)" by (cases a)
  from Cons.prems have "kv \<in> set (foldl (\<lambda>acc (k, v). js_set acc k v) (js_set acc k v) kvs)"
    by (simp add: a)
  then have "kv \<in> set (js_set acc k v) \<union> set kvs" by (rule Cons.IH)
  then show ?case using js_set_mem [of "fst kv" "snd kv" acc k v] by (auto simp: a)
qed

lemma js_literal_mem: "kv \<in> set (js_literal kvs) \<Longrightarrow> kv \<in> set kvs"
  using foldl_js_set_mem [of kv "[]" kvs] by (simp add: js_literal_def)

lemma flag_value_kind: "flag_value opts k = JUndefined \<or> (\<exists>s. flag_value opts k = JString s)"
proof (cases "map_of (js_literal (map (\<lambda>(k, s). (k, JString s)) opts)) k")
  case None
  then show ?thesis by (simp add: flag_value_def options_object_def)
next
  case (Some v)
  then have "(k, v) \<in> set (js_literal (map (\<lambda>(k, s). (k, JString s)) opts))"
    by (rule map_of_SomeD)
  then have "(k, v) \<in> set (map (\<lambda>(k, s). (k, JString s)) opts)" by (rule js_literal_mem)
  then obtain s where "v = JString s" by auto
  with Some show ?thesis by (simp add: flag_value_def options_object_def)
qed

lemma flag_value_truthy: "truthy (flag_value opts k) \<Longrightarrow> \<exists>s. flag_value opts k = JString s"
  using flag_value_kind [of opts k] by auto

subsection \<open>The application each mode builds\<close>

lemma blank_preset: "js_get PRESETS ''blank'' = JArray [users_entity]"
  by (simp add: PRESETS_def)

lemma json_ok_blank: "json_ok (JArray [users_entity])"
  by (simp add: users_entity_def users_fields_def)

lemma json_ok_prompt_application: "json_ok (prompt_application name)"
  using json_ok_blank by (simp add: prompt_application_def)

lemma json_ok_flags_application:
  assumes "first_missing opts = None"
  shows "json_ok (flags_application name opts)"
proof -
  from assms have t:
    "truthy (flag_value opts ''frontend'')" "truthy (flag_value opts ''backend'')"
    "truthy (flag_value opts ''db'')" "truthy (flag_value opts ''design'')"
    by (simp_all add: first_missing_None)
  obtain a where a: "flag_value opts ''frontend'' = JString a"
    using flag_value_truthy [OF t(1)] ..
  obtain b where b: "flag_value opts ''backend'' = JString b"
    using flag_value_truthy [OF t(2)] ..
  obtain c where c: "flag_value opts ''db'' = JString c"
    using flag_value_truthy [OF t(3)] ..
  obtain d where d: "flag_value opts ''design'' = JString d"
    using flag_value_truthy [OF t(4)] ..
  show ?thesis using json_ok_blank by (simp add: flags_application_def a b c d)
qed

lemma run_missing:
  assumes "\<not> truthy (pathExists fs (target_path e name))"
    and "opts \<noteq> []"
    and "first_missing opts = Some k"
  shows "run e name opts fs = (Exited 1, \<lparr>files = fs, trace = [ErrorRed (required_message k)]\<rparr>)"
  using assms by (simp add: run_mode cliMode_missing emit_def)

lemma run_interactive:
  assumes "\<not> truthy (pathExists fs (target_path e name))"
  shows "run e name [] fs =
           materialize e (target_path e name) (prompt_application name)
             \<lparr>files = fs, trace = [Prompt prompt_names]\<rparr>"
  using assms
  by (simp add: run_mode interactiveMode_result js_fields_def js_literal_def emit_def
      prompt_application_def prompt_names_def)

lemma run_flags:
  assumes "\<not> truthy (pathExists fs (target_path e name))" and "first_missing opts = None"
  shows "run e name opts fs =
           materialize e (target_path e name) (flags_application name opts)
             \<lparr>files = fs, trace = []\<rparr>"
proof -
  from assms(2) have "opts \<noteq> []" using first_missing_empty by auto
  then show ?thesis
    using assms
    by (simp add: run_mode cliMode_complete js_fields_def js_literal_def
        flags_application_def)
qed

text \<open>
  Every run either stops at one of the two usage errors, or hands a well-formed application
  to the materializer with nothing posted or written before.
\<close>

lemma run_cases:
  obtains (exits) m where
      "run e name opts fs = (Exited 1, \<lparr>files = fs, trace = [ErrorRed m]\<rparr>)"
    | (goes) app tr where
      "run e name opts fs = materialize e (target_path e name) app \<lparr>files = fs, trace = tr\<rparr>"
      "json_ok app" "posted tr = []" "written tr = []" "\<forall>m. ErrorRed m \<notin> set tr"
proof (cases "truthy (pathExists fs (target_path e name))")
  case True
  then show ?thesis using run_target_taken exits by blast
next
  case free: False
  show ?thesis
  proof (cases "opts = []")
    case True
    show ?thesis
      using goes [of "prompt_application name" "[Prompt prompt_names]"]
        run_interactive [OF free] json_ok_prompt_application
      by (simp add: True)
  next
    case False
    show ?thesis
    proof (cases "first_missing opts")
      case None
      show ?thesis
        using goes [of "flags_application name opts" "[]"]
          run_flags [OF free None] json_ok_flags_application [OF None]
        by simp
    next
      case (Some k)
      from free False Some have
        "run e name opts fs = (Exited 1, \<lparr>files = fs, trace = [ErrorRed (required_message k)]\<rparr>)"
        by (rule run_missing)
      then show ?thesis by (rule exits)
    qed
  qed
qed

text \<open>In non-interactive mode a sidecar file holds the six keys of \<^verbatim>\<open>Application\<close>.\<close>

lemma flags_sidecar_keys:
  assumes "opts \<noteq> []"
    and "(p, content) \<in> set (written (trace (snd (run e name opts fs))))"
  shows "\<exists>app. JSON_parse content = Some app
             \<and> Object_keys app = [''title'', ''frontend'', ''backend'', ''db'', ''design'', ''entities'']"
proof (cases "truthy (pathExists fs (target_path e name))")
  case True
  with assms(2) show ?thesis by (simp add: run_target_taken)
next
  case free: False
  show ?thesis
  proof (cases "first_missing opts")
    case (Some k)
    with assms free show ?thesis by (simp add: run_missing)
  next
    case None
    let ?app = "flags_application name opts"
    have run: "run e name opts fs =
        materialize e (target_path e name) ?app \<lparr>files = fs, trace = []\<rparr>"
      using free None by (rule run_flags)
    obtain out w' where m:
      "materialize e (target_path e name) ?app \<lparr>files = fs, trace = []\<rparr> = (out, w')"
      by (cases "materialize e (target_path e name) ?app \<lparr>files = fs, trace = []\<rparr>")
    show ?thesis
    proof (cases "out = Finished")
      case False
      with m have "written (trace w') = []"
        using materialize_not_Finished
          [of e "target_path e name" ?app "\<lparr>files = fs, trace = []\<rparr>" out w']
        by simp
      with assms(2) run m show ?thesis by simp
    next
      case True
      with m obtain bytes sidetext where
        str: "JSON_stringify ?app = Some sidetext"
        and tr: "trace w' = [] @
             [Mkdir (target_path e name), Post URL (JObject [(''schema'', ?app)]),
              Saved (TEMP_FILE e) bytes, Extract (TEMP_FILE e) (target_path e name),
              Rm (TEMP_FILE e),
              WriteFile (path_join (target_path e name) ''.flatlogicrc'') sidetext]"
        using materialize_Finished
          [of e "target_path e name" ?app "\<lparr>files = fs, trace = []\<rparr>" w']
        by auto
      have "JSON_parse sidetext = Some ?app"
        using json_ok_flags_application [OF None] str by (rule stringify_parse)
      moreover have "Object_keys ?app
          = [''title'', ''frontend'', ''backend'', ''db'', ''design'', ''entities'']"
        by (simp add: flags_application_def Object_keys_def)
      ultimately show ?thesis using assms(2) run m tr by auto
    qed
  qed
qed

subsection \<open>The example invocations\<close>

lemmas example_defs = env0_def env_down_def fs0_def fs_taken_def fs_socket_def all_flags_def
  target_path_def sidecar_path_def path_join_def TEMP_FILE_def

lemma all_flags_complete: "first_missing all_flags = None"
  by (simp add: first_missing_def required_options_def flag_value_def options_object_def
      js_literal_def all_flags_def)

lemma one_flag_incomplete: "first_missing [(''frontend'', ''react'')] = Some ''backend''"
  by (simp add: first_missing_def required_options_def flag_value_def options_object_def
      js_literal_def)

lemma env0_works:
  "\<forall>op. \<not> os_fault env0 op"
  "\<forall>body. \<exists>bytes entries. service env0 URL body = Some bytes \<and> unzip env0 bytes = Some entries"
  "writable fs0 (TEMP_FILE env0)" "TEMP_FILE env0 \<noteq> target_path env0 ''app''"
  "writable fs0 (sidecar_path env0 ''app'')" "fs0 (target_path env0 ''app'') = None"
  by (simp_all add: example_defs writable_def)

lemma env0_surroundings: "surroundings_work env0 ''app'' fs0"
  using env0_works by (simp add: surroundings_work_def)

lemma fs0_free: "\<not> truthy (pathExists fs0 (target_path env0 ''app''))"
  using env0_works(6) by (simp add: pathExists_def)

lemma fs_taken_found: "truthy (pathExists fs_taken (target_path env0 ''app''))"
  by (simp add: pathExists_def fs_taken_def target_path_def path_join_def env0_def
      isDirectory_def)

lemma run_all_flags:
  "\<exists>bytes content app w'.
     run env0 ''app'' all_flags fs0 = (Finished, w')
   \<and> trace w' =
       [Mkdir (target_path env0 ''app''), Post URL (JObject [(''schema'', app)]),
        Saved (TEMP_FILE env0) bytes, Extract (TEMP_FILE env0) (target_path env0 ''app''),
        Rm (TEMP_FILE env0), WriteFile (sidecar_path env0 ''app'') content]"
proof -
  have run: "run env0 ''app'' all_flags fs0 =
      materialize env0 (target_path env0 ''app'') (flags_application ''app'' all_flags)
        \<lparr>files = fs0, trace = []\<rparr>"
    using fs0_free all_flags_complete by (rule run_flags)
  have side: "writable fs0 (path_join (target_path env0 ''app'') ''.flatlogicrc'')"
    using env0_works(5) by (simp add: sidecar_path_def)
  have ok: "json_ok (flags_application ''app'' all_flags)"
    using all_flags_complete by (rule json_ok_flags_application)
  from materialize_ok [OF env0_works(1) env0_works(6) env0_works(3) env0_works(4) side
      env0_works(2) ok, of "[]"]
  show ?thesis unfolding run sidecar_path_def by auto
qed

lemma run_service_down:
  "run env_down ''app'' all_flags fs0 =
     (Unhandled TransportError,
      \<lparr>files = fs0(target_path env0 ''app'' \<mapsto> Dir, TEMP_FILE env0 \<mapsto> File []),
       trace = [Mkdir (target_path env0 ''app''),
                Post URL (JObject [(''schema'', flags_application ''app'' all_flags)])]\<rparr>)"
proof -
  have same: "target_path env_down ''app'' = target_path env0 ''app''"
    "TEMP_FILE env_down = TEMP_FILE env0"
    by (simp_all add: env_down_def target_path_def TEMP_FILE_def)
  have free: "\<not> truthy (pathExists fs0 (target_path env_down ''app''))"
    using fs0_free by (simp add: same)
  have run: "run env_down ''app'' all_flags fs0 =
      materialize env_down (target_path env_down ''app'') (flags_application ''app'' all_flags)
        \<lparr>files = fs0, trace = []\<rparr>"
    using free all_flags_complete by (rule run_flags)
  have "os_fault env_down = (\<lambda>op. False)" "service env_down = (\<lambda>url body. None)"
    by (simp_all add: env_down_def env0_def)
  then show ?thesis
    unfolding run same
    using env0_works(3,4,6)
    by (simp add: materialize_def step_defs js_literal_def Let_def same writable_def)
qed

section \<open>The claims of the specification\<close>

subsection \<open>Option Resolver\<close>

text \<open>
  Claim C1, as stated: in non-interactive mode (at least one recognized flag supplied), when
  the value of a required option is absent or empty the process prints an error message
  naming the first such option in the order frontend, backend, db, design, and exits with
  status 1. The action checks the target path before it looks at any option: with
  \<^verbatim>\<open>--frontend react\<close> alone and a directory already at the target path, \<^verbatim>\<open>backend\<close> is the
  first missing option, yet the message naming it is never printed (the run ends on the
  already-exists error).
\<close>

theorem missing_option_message_counterexample:
  "first_missing [(''frontend'', ''react'')] = Some ''backend''
   \<and> ErrorRed (required_message ''backend'')
        \<notin> set (trace (snd (run env0 ''app'' [(''frontend'', ''react'')] fs_taken)))"
proof -
  have "run env0 ''app'' [(''frontend'', ''react'')] fs_taken =
     (Exited 1, \<lparr>files = fs_taken,
                 trace = [ErrorRed (exists_message (target_path env0 ''app''))]\<rparr>)"
    using fs_taken_found by (rule run_target_taken)
  then show ?thesis using one_flag_incomplete by (simp add: messages_differ)
qed

text \<open>
  Claim C1, amended: when the existence check lets the run pass (\<^verbatim>\<open>pathExists\<close> is falsy for
  the target path) and at least one flag is supplied, the four required options are checked
  in the order frontend, backend, db, design; if one of them is absent or empty, all the
  process does is print the error message naming the first such option and exit with
  status 1: the file system is as it was, so no target directory is created.
\<close>

theorem missing_option_named_after_existence_check:
  assumes "\<not> truthy (pathExists fs (target_path e name))"
    and "opts \<noteq> []"
    and "first_missing opts = Some k"
  shows "run e name opts fs = (Exited 1, \<lparr>files = fs, trace = [ErrorRed (required_message k)]\<rparr>)"
  using assms by (rule run_missing)

text \<open>
  Claim C1, witness: \<^verbatim>\<open>generate app --frontend react\<close> where nothing is at the target path
  ends with status 1 on the message naming \<^verbatim>\<open>backend\<close>.
\<close>

theorem missing_option_named_after_existence_check_witness:
  "run env0 ''app'' [(''frontend'', ''react'')] fs0 =
     (Exited 1, \<lparr>files = fs0, trace = [ErrorRed (required_message ''backend'')]\<rparr>)"
proof -
  have given: "[(''frontend'', ''react'')] \<noteq> ([] :: options)" by simp
  show ?thesis
    by (rule missing_option_named_after_existence_check
          [where fs = fs0 and e = env0 and name = "''app''", OF fs0_free given one_flag_incomplete])
qed

text \<open>
  Claim C8, as stated: interactive mode (prompting) runs if and only if zero recognized
  option keys were supplied. With no flag at all and a directory already at the target
  path, the options object has no key and still no prompt is shown: the existence check
  ends the run first.
\<close>

theorem interactive_iff_no_keys_counterexample:
  "Object_keys (options_object []) = [] \<and> \<not> prompted (snd (run env0 ''app'' [] fs_taken))"
proof -
  have "run env0 ''app'' [] fs_taken =
     (Exited 1, \<lparr>files = fs_taken,
                 trace = [ErrorRed (exists_message (target_path env0 ''app''))]\<rparr>)"
    using fs_taken_found by (rule run_target_taken)
  then show ?thesis by (simp add: prompted_def Object_keys_options)
qed

text \<open>
  Claim C8, amended: when the existence check lets the run pass, the prompts are shown if
  and only if the options object has no key; if it has any key the run is non-interactive:
  it never prompts, and the application of every request it posts has its entities bound to
  the built-in \<^verbatim>\<open>blank\<close> preset.
\<close>

theorem mode_selected_by_option_keys:
  assumes "\<not> truthy (pathExists fs (target_path e name))"
  shows "(prompted (snd (run e name opts fs)) \<longleftrightarrow> Object_keys (options_object opts) = [])
       \<and> (Object_keys (options_object opts) \<noteq> [] \<longrightarrow>
            (\<forall>url body. (url, body) \<in> set (posted (trace (snd (run e name opts fs)))) \<longrightarrow>
               js_get (js_get body ''schema'') ''entities'' = js_get PRESETS ''blank''))"
proof (cases "opts = []")
  case True
  obtain evs where
    "trace (snd (materialize e (target_path e name) (prompt_application name)
        \<lparr>files = fs, trace = [Prompt prompt_names]\<rparr>)) = [Prompt prompt_names] @ evs"
    using materialize_trace
      [of e "target_path e name" "prompt_application name"
          "\<lparr>files = fs, trace = [Prompt prompt_names]\<rparr>"]
    by auto
  then have "prompted (snd (run e name opts fs))"
    by (simp add: True run_interactive [OF assms] prompted_def)
  then show ?thesis by (simp add: True Object_keys_options)
next
  case False
  then have keys: "Object_keys (options_object opts) \<noteq> []" by (simp add: Object_keys_options)
  show ?thesis
  proof (cases "first_missing opts")
    case (Some k)
    from assms False Some have
      "run e name opts fs = (Exited 1, \<lparr>files = fs, trace = [ErrorRed (required_message k)]\<rparr>)"
      by (rule run_missing)
    then show ?thesis using keys by (simp add: prompted_def)
  next
    case None
    obtain evs where evs:
      "trace (snd (materialize e (target_path e name) (flags_application name opts)
          \<lparr>files = fs, trace = []\<rparr>)) = [] @ evs"
      "\<not> list_ex is_prompt evs"
      "posted evs = [] \<or> posted evs = [(URL, JObject [(''schema'', flags_application name opts)])]"
      using materialize_trace
        [of e "target_path e name" "flags_application name opts" "\<lparr>files = fs, trace = []\<rparr>"]
      by auto
    have ent: "js_get (flags_application name opts) ''entities'' = js_get PRESETS ''blank''"
      by (simp add: flags_application_def blank_preset)
    show ?thesis
      using evs keys ent by (auto simp: run_flags [OF assms None] prompted_def)
  qed
qed

text \<open>
  Claim C8, witness: on a free target path the run without flags prompts; the run with the
  four flags does not, and the one request it posts carries the \<^verbatim>\<open>blank\<close> preset.
\<close>

theorem mode_selected_by_option_keys_witness:
  "prompted (snd (run env0 ''app'' [] fs0))
   \<and> \<not> prompted (snd (run env0 ''app'' all_flags fs0))
   \<and> posted (trace (snd (run env0 ''app'' all_flags fs0))) \<noteq> []
   \<and> list_all (\<lambda>(url, body). js_get (js_get body ''schema'') ''entities'' = js_get PRESETS ''blank'')
        (posted (trace (snd (run env0 ''app'' all_flags fs0))))"
proof -
  have k0: "Object_keys (options_object []) = []" by (simp add: Object_keys_options)
  have k1: "Object_keys (options_object all_flags) \<noteq> []"
    by (simp add: Object_keys_options all_flags_def)
  from mode_selected_by_option_keys [OF fs0_free, of "[]"] k0
  have a: "prompted (snd (run env0 ''app'' [] fs0))" by blast
  from mode_selected_by_option_keys [OF fs0_free, of all_flags] k1 have
    b: "\<not> prompted (snd (run env0 ''app'' all_flags fs0))"
    and c: "\<forall>url body. (url, body) \<in> set (posted (trace (snd (run env0 ''app'' all_flags fs0)))) \<longrightarrow>
               js_get (js_get body ''schema'') ''entities'' = js_get PRESETS ''blank''"
    by blast+
  have d: "posted (trace (snd (run env0 ''app'' all_flags fs0))) \<noteq> []"
    using run_all_flags by auto
  from c have "list_all (\<lambda>(url, body). js_get (js_get body ''schema'') ''entities'' = js_get PRESETS ''blank'')
        (posted (trace (snd (run env0 ''app'' all_flags fs0))))"
    by (auto simp: list_all_iff)
  with a b d show ?thesis by blast
qed

subsection \<open>The preset store\<close>

lemmas preset_defs = PRESETS_def users_entity_def users_fields_def preset_entities_def
  entity_fields_def field_names_def stored_entities_def Object_keys_def js_items_def
  entity_name_def field_count_def

text \<open>
  Claim C2, as stated: the store defines exactly one preset, \<^verbatim>\<open>blank\<close>, holding exactly one
  entity, \<^verbatim>\<open>users\<close>, whose field list has exactly thirteen fields. The count is wrong: the
  list written in \<^verbatim>\<open>PRESETS\<close> runs from \<^verbatim>\<open>firstName\<close> to \<^verbatim>\<open>provider\<close> and has fourteen
  entries.
\<close>

theorem preset_thirteen_fields_counterexample:
  "\<not> (Object_keys PRESETS = [''blank'']
      \<and> map entity_name (preset_entities ''blank'') = [JString ''users'']
      \<and> map field_count (preset_entities ''blank'') = [13])"
  by (simp add: preset_defs)

text \<open>
  Claim C2, amended: the store defines exactly one preset, \<^verbatim>\<open>blank\<close>, holding exactly one
  entity, \<^verbatim>\<open>users\<close>, whose ordered field list has exactly fourteen fields.
\<close>

theorem preset_blank_users_fourteen_fields:
  "Object_keys PRESETS = [''blank'']
   \<and> map entity_name (preset_entities ''blank'') = [JString ''users'']
   \<and> map field_count (preset_entities ''blank'') = [14]"
  by (simp add: preset_defs)

text \<open>
  Claim C9: in every entity held in the store the field names are pairwise distinct, and
  the fields stand in the order written in the preset definition. The store holds the one
  entity \<^verbatim>\<open>users\<close>; its names are listed here in the order of the source.
\<close>

theorem preset_field_names_distinct_in_order:
  "stored_entities = [users_entity]
   \<and> field_names users_entity =
       [JString ''firstName'', JString ''lastName'', JString ''phoneNumber'', JString ''email'',
        JString ''role'', JString ''disabled'', JString ''avatar'', JString ''password'',
        JString ''emailVerified'', JString ''emailVerificationToken'',
        JString ''emailVerificationTokenExpiresAt'', JString ''passwordResetToken'',
        JString ''passwordResetTokenExpiresAt'', JString ''provider'']
   \<and> list_all (\<lambda>e. distinct (field_names e)) stored_entities"
  by (simp add: preset_defs)

subsection \<open>The sidecar file\<close>

text \<open>
  Claim C3 says that every application written to \<^verbatim>\<open>.flatlogicrc\<close> has exactly the keys title,
  frontend, backend, db, design and entities, in both modes. In non-interactive mode it has
  (\<open>flags_sidecar_keys\<close>). In interactive mode \<^verbatim>\<open>interactiveMode\<close> spreads all the answers
  into what it returns, and the answer to the preset question goes along: for
  \<^verbatim>\<open>generate app\<close> without flags, in working surroundings, the sidecar file parses to an
  object with a seventh key, \<^verbatim>\<open>schemaPreset\<close>.
\<close>

theorem interactive_sidecar_keeps_schemaPreset:
  "\<exists>content app.
      written (trace (snd (run env0 ''app'' [] fs0))) = [(''/home/user/app/.flatlogicrc'', content)]
    \<and> JSON_parse content = Some app
    \<and> Object_keys app =
        [''title'', ''frontend'', ''backend'', ''db'', ''design'', ''schemaPreset'', ''entities'']"
proof -
  have run: "run env0 ''app'' [] fs0 =
      materialize env0 (target_path env0 ''app'') (prompt_application ''app'')
        \<lparr>files = fs0, trace = [Prompt prompt_names]\<rparr>"
    using fs0_free by (rule run_interactive)
  have side: "writable fs0 (path_join (target_path env0 ''app'') ''.flatlogicrc'')"
    using env0_works(5) by (simp add: sidecar_path_def)
  have keys: "Object_keys (prompt_application ''app'') =
      [''title'', ''frontend'', ''backend'', ''db'', ''design'', ''schemaPreset'', ''entities'']"
    by (simp add: prompt_application_def Object_keys_def)
  have p: "path_join (target_path env0 ''app'') ''.flatlogicrc'' = ''/home/user/app/.flatlogicrc''"
    by (simp add: example_defs)
  from materialize_ok [OF env0_works(1) env0_works(6) env0_works(3) env0_works(4) side
      env0_works(2) json_ok_prompt_application, of "''app''" "[Prompt prompt_names]"]
  obtain bytes content w' where
    "materialize env0 (target_path env0 ''app'') (prompt_application ''app'')
        \<lparr>files = fs0, trace = [Prompt prompt_names]\<rparr> = (Finished, w')"
    "trace w' = [Prompt prompt_names] @
             [Mkdir (target_path env0 ''app''),
              Post URL (JObject [(''schema'', prompt_application ''app'')]),
              Saved (TEMP_FILE env0) bytes, Extract (TEMP_FILE env0) (target_path env0 ''app''),
              Rm (TEMP_FILE env0),
              WriteFile (path_join (target_path env0 ''app'') ''.flatlogicrc'') content]"
    "JSON_parse content = Some (prompt_application ''app'')"
    by blast
  then show ?thesis using keys by (auto simp: run p)
qed

text \<open>
  Claim C5: the text written to the sidecar file parses to a value equal to the application
  that was sent as the \<^verbatim>\<open>schema\<close> member of the POST body, keys and nested fields in the same
  order. Whenever a run writes a file, the run has posted exactly one request, to the
  generation endpoint; the file is the sidecar file, and its text reads back as the
  \<^verbatim>\<open>schema\<close> of that request.
\<close>

theorem sidecar_parses_to_posted_schema:
  assumes "(p, content) \<in> set (written (trace (snd (run e name opts fs))))"
  shows "\<exists>app. posted (trace (snd (run e name opts fs))) = [(URL, JObject [(''schema'', app)])]
             \<and> JSON_parse content = Some app
             \<and> p = sidecar_path e name
             \<and> files (snd (run e name opts fs)) p = Some (File content)"
proof (cases rule: run_cases [of e name opts fs])
  case (exits m)
  with assms show ?thesis by simp
next
  case (goes app tr)
  obtain out w' where m: "materialize e (target_path e name) app \<lparr>files = fs, trace = tr\<rparr> = (out, w')"
    by (cases "materialize e (target_path e name) app \<lparr>files = fs, trace = tr\<rparr>")
  show ?thesis
  proof (cases "out = Finished")
    case False
    with m have "written (trace w') = written tr"
      using materialize_not_Finished [of e "target_path e name" app "\<lparr>files = fs, trace = tr\<rparr>" out w']
      by simp
    with assms goes m show ?thesis by simp
  next
    case True
    with m obtain bytes sidetext where
      str: "JSON_stringify app = Some sidetext"
      and tr: "trace w' = tr @
             [Mkdir (target_path e name), Post URL (JObject [(''schema'', app)]),
              Saved (TEMP_FILE e) bytes, Extract (TEMP_FILE e) (target_path e name),
              Rm (TEMP_FILE e), WriteFile (path_join (target_path e name) ''.flatlogicrc'') sidetext]"
      and sidefile: "files w' (path_join (target_path e name) ''.flatlogicrc'') = Some (File sidetext)"
      using materialize_Finished [of e "target_path e name" app "\<lparr>files = fs, trace = tr\<rparr>" w']
      by auto
    have "JSON_parse sidetext = Some app" using goes(2) str by (rule stringify_parse)
    then show ?thesis
      using assms goes m tr sidefile
      by (auto simp: written_append posted_append sidecar_path_def)
  qed
qed

text \<open>
  Claim C5, witness: the run with the four flags in working surroundings writes one file,
  the sidecar file, and its text parses to the schema of the one request posted.
\<close>

theorem sidecar_parses_to_posted_schema_witness:
  "\<exists>content app.
      written (trace (snd (run env0 ''app'' all_flags fs0))) = [(sidecar_path env0 ''app'', content)]
    \<and> posted (trace (snd (run env0 ''app'' all_flags fs0))) = [(URL, JObject [(''schema'', app)])]
    \<and> JSON_parse content = Some app"
proof -
  from run_all_flags obtain bytes content app0 w' where
    run: "run env0 ''app'' all_flags fs0 = (Finished, w')"
    and tr: "trace w' =
       [Mkdir (target_path env0 ''app''), Post URL (JObject [(''schema'', app0)]),
        Saved (TEMP_FILE env0) bytes, Extract (TEMP_FILE env0) (target_path env0 ''app''),
        Rm (TEMP_FILE env0), WriteFile (sidecar_path env0 ''app'') content]"
    by blast
  have w: "written (trace (snd (run env0 ''app'' all_flags fs0)))
            = [(sidecar_path env0 ''app'', content)]"
    by (simp add: run tr)
  then have "(sidecar_path env0 ''app'', content)
      \<in> set (written (trace (snd (run env0 ''app'' all_flags fs0))))" by simp
  from sidecar_parses_to_posted_schema [OF this] w show ?thesis by blast
qed

subsection \<open>Project Materializer\<close>

text \<open>
  Claim C4: when all four required flags are supplied and nothing exists at the target
  path, the command creates the target directory, deletes the temporary archive file before
  it writes the sidecar file (so that no temporary file is left behind on success), and
  writes a sidecar file whose parsed title is the supplied name and whose parsed entities
  are the \<^verbatim>\<open>blank\<close> preset. Whenever such a run succeeds, its effects are exactly the
  directory creation, the request, the storing of the response, the extraction, the
  removal of the temporary file and then the writing of the sidecar file, and it leaves the
  directory, no temporary file, and that sidecar file; and it does succeed whenever the
  surroundings work.
\<close>

theorem all_flags_fresh_target_materialized:
  assumes "first_missing opts = None" and "fs (target_path e name) = None"
  shows "(fst (run e name opts fs) = Finished \<longrightarrow>
           (\<exists>bytes content app.
               trace (snd (run e name opts fs)) =
                 [Mkdir (target_path e name), Post URL (JObject [(''schema'', app)]),
                  Saved (TEMP_FILE e) bytes, Extract (TEMP_FILE e) (target_path e name),
                  Rm (TEMP_FILE e), WriteFile (sidecar_path e name) content]
             \<and> files (snd (run e name opts fs)) (target_path e name) = Some Dir
             \<and> files (snd (run e name opts fs)) (TEMP_FILE e) = None
             \<and> files (snd (run e name opts fs)) (sidecar_path e name) = Some (File content)
             \<and> JSON_parse content = Some app
             \<and> js_get app ''title'' = JString name
             \<and> js_get app ''entities'' = js_get PRESETS ''blank''))
       \<and> (surroundings_work e name fs \<longrightarrow> fst (run e name opts fs) = Finished)"
proof -
  let ?app = "flags_application name opts"
  let ?w = "\<lparr>files = fs, trace = []\<rparr>"
  have free: "\<not> truthy (pathExists fs (target_path e name))"
    using assms(2) by (simp add: pathExists_def)
  have run: "run e name opts fs = materialize e (target_path e name) ?app ?w"
    using free assms(1) by (rule run_flags)
  have ok: "json_ok ?app" using assms(1) by (rule json_ok_flags_application)
  have fields: "js_get ?app ''title'' = JString name"
    "js_get ?app ''entities'' = js_get PRESETS ''blank''"
    by (simp_all add: flags_application_def blank_preset)
  have first: "\<exists>bytes content app.
               trace w' =
                 [Mkdir (target_path e name), Post URL (JObject [(''schema'', app)]),
                  Saved (TEMP_FILE e) bytes, Extract (TEMP_FILE e) (target_path e name),
                  Rm (TEMP_FILE e), WriteFile (sidecar_path e name) content]
             \<and> files w' (target_path e name) = Some Dir
             \<and> files w' (TEMP_FILE e) = None
             \<and> files w' (sidecar_path e name) = Some (File content)
             \<and> JSON_parse content = Some app
             \<and> js_get app ''title'' = JString name
             \<and> js_get app ''entities'' = js_get PRESETS ''blank''"
    if fin: "materialize e (target_path e name) ?app ?w = (Finished, w')" for w'
  proof -
    from materialize_Finished [OF fin] obtain bytes content where
      str: "JSON_stringify ?app = Some content"
      and tr: "trace w' = trace ?w @
             [Mkdir (target_path e name), Post URL (JObject [(''schema'', ?app)]),
              Saved (TEMP_FILE e) bytes, Extract (TEMP_FILE e) (target_path e name),
              Rm (TEMP_FILE e), WriteFile (path_join (target_path e name) ''.flatlogicrc'') content]"
      and side: "files w' (path_join (target_path e name) ''.flatlogicrc'') = Some (File content)"
      by blast
    have parsed: "JSON_parse content = Some ?app" using ok str by (rule stringify_parse)
    from materialize_Finished_files [OF fin] tr side parsed fields
    show ?thesis by (auto simp: sidecar_path_def)
  qed
  have second: "fst (run e name opts fs) = Finished" if "surroundings_work e name fs"
  proof -
    from that have side: "writable fs (path_join (target_path e name) ''.flatlogicrc'')"
      and env: "\<forall>op. \<not> os_fault e op"
        "\<forall>body. \<exists>bytes entries. service e URL body = Some bytes \<and> unzip e bytes = Some entries"
        "writable fs (TEMP_FILE e)" "TEMP_FILE e \<noteq> target_path e name"
      by (simp_all add: surroundings_work_def sidecar_path_def)
    from materialize_ok [OF env(1) assms(2) env(3) env(4) side env(2) ok, of "[]"]
    show ?thesis unfolding run by auto
  qed
  show ?thesis
  proof (intro conjI impI)
    assume "fst (run e name opts fs) = Finished"
    then have "materialize e (target_path e name) ?app ?w
                 = (Finished, snd (run e name opts fs))"
      unfolding run by (simp add: prod_eq_iff)
    then show "\<exists>bytes content app.
               trace (snd (run e name opts fs)) =
                 [Mkdir (target_path e name), Post URL (JObject [(''schema'', app)]),
                  Saved (TEMP_FILE e) bytes, Extract (TEMP_FILE e) (target_path e name),
                  Rm (TEMP_FILE e), WriteFile (sidecar_path e name) content]
             \<and> files (snd (run e name opts fs)) (target_path e name) = Some Dir
             \<and> files (snd (run e name opts fs)) (TEMP_FILE e) = None
             \<and> files (snd (run e name opts fs)) (sidecar_path e name) = Some (File content)
             \<and> JSON_parse content = Some app
             \<and> js_get app ''title'' = JString name
             \<and> js_get app ''entities'' = js_get PRESETS ''blank''"
      by (rule first)
  next
    assume "surroundings_work e name fs"
    then show "fst (run e name opts fs) = Finished" by (rule second)
  qed
qed

text \<open>
  Claim C4, witness: \<^verbatim>\<open>generate app\<close> with the four flags, in \<^verbatim>\<open>/home/user\<close> where no
  \<^verbatim>\<open>app\<close> exists and the surroundings work, finishes and leaves the directory, no temporary
  file, and the sidecar file.
\<close>

theorem all_flags_fresh_target_materialized_witness:
  "fst (run env0 ''app'' all_flags fs0) = Finished
   \<and> (\<exists>bytes content app.
         trace (snd (run env0 ''app'' all_flags fs0)) =
           [Mkdir ''/home/user/app'', Post URL (JObject [(''schema'', app)]),
            Saved ''/tmp/flatlogic.zip'' bytes, Extract ''/tmp/flatlogic.zip'' ''/home/user/app'',
            Rm ''/tmp/flatlogic.zip'', WriteFile ''/home/user/app/.flatlogicrc'' content]
       \<and> files (snd (run env0 ''app'' all_flags fs0)) ''/home/user/app'' = Some Dir
       \<and> files (snd (run env0 ''app'' all_flags fs0)) ''/tmp/flatlogic.zip'' = None
       \<and> files (snd (run env0 ''app'' all_flags fs0)) ''/home/user/app/.flatlogicrc''
            = Some (File content)
       \<and> JSON_parse content = Some app
       \<and> js_get app ''title'' = JString ''app''
       \<and> js_get app ''entities'' = js_get PRESETS ''blank'')"
proof -
  have paths: "target_path env0 ''app'' = ''/home/user/app''"
    "TEMP_FILE env0 = ''/tmp/flatlogic.zip''"
    "sidecar_path env0 ''app'' = ''/home/user/app/.flatlogicrc''"
    by (simp_all add: example_defs)
  note inst = all_flags_fresh_target_materialized
        [where opts = all_flags and fs = fs0 and e = env0 and name = "''app''",
         OF all_flags_complete env0_works(6)]
  from inst env0_surroundings have fin: "fst (run env0 ''app'' all_flags fs0) = Finished"
    by blast
  with inst show ?thesis unfolding paths by blast
qed

text \<open>
  Claim C6: for every invocation where a file or a directory already exists at the target
  path (the working directory joined with the name), the process prints an error and exits
  with status 1 before any change to the file system: the existing path is left as it is,
  no directory is created and no request is sent. The error message is the whole trace of
  such a run.
\<close>

theorem existing_target_left_untouched:
  assumes "fs (target_path e name) = Some n" and "isDirectory n \<or> isFile n"
  shows "run e name opts fs =
           (Exited 1, \<lparr>files = fs, trace = [ErrorRed (exists_message (target_path e name))]\<rparr>)"
proof -
  from assms have "truthy (pathExists fs (target_path e name))"
    by (auto simp: pathExists_def)
  then show ?thesis by (rule run_target_taken)
qed

text \<open>
  Claim C6, witness: with a directory at \<^verbatim>\<open>/home/user/app\<close>, \<^verbatim>\<open>generate app\<close> with the four
  flags exits with status 1 on the already-exists message.
\<close>

theorem existing_target_left_untouched_witness:
  "run env0 ''app'' all_flags fs_taken =
     (Exited 1, \<lparr>files = fs_taken, trace = [ErrorRed ''error: folder /home/user/app already exists'']\<rparr>)"
proof -
  have a: "fs_taken (target_path env0 ''app'') = Some Dir"
    by (simp add: fs_taken_def target_path_def path_join_def env0_def)
  have b: "isDirectory Dir \<or> isFile Dir" by (simp add: isDirectory_def)
  show ?thesis
    using existing_target_left_untouched
      [where fs = fs_taken and e = env0 and name = "''app''" and n = Dir
        and opts = all_flags, OF a b]
    by (simp add: exists_message_def target_path_def path_join_def env0_def)
qed

text \<open>
  Claim C7: if the download from the remote service fails (network failure or non-success
  response), the process ends with a non-zero status and the sidecar file is never written;
  the sidecar file is written only after the download, the extraction and the removal of the
  temporary file have all succeeded. For a run with outcome \<open>out\<close> and final world \<open>w'\<close>:
  if a request was posted and the service did not answer it, the exit status is not 0 and
  nothing was written; and if anything was written, the run finished, the service answered,
  and the trace ends with the request, the stored response, the extraction, the removal and
  then the write, in this order.
\<close>

theorem failed_download_writes_no_sidecar:
  assumes "run e name opts fs = (out, w')"
  shows "((\<exists>url body. (url, body) \<in> set (posted (trace w')) \<and> service e url body = None)
            \<longrightarrow> exit_status out \<noteq> 0 \<and> written (trace w') = [])
       \<and> (written (trace w') \<noteq> [] \<longrightarrow>
            (\<exists>pre app bytes content.
                out = Finished
              \<and> service e URL (JObject [(''schema'', app)]) = Some bytes
              \<and> trace w' = pre @
                  [Mkdir (target_path e name), Post URL (JObject [(''schema'', app)]),
                   Saved (TEMP_FILE e) bytes, Extract (TEMP_FILE e) (target_path e name),
                   Rm (TEMP_FILE e), WriteFile (sidecar_path e name) content]))"
proof (cases rule: run_cases [of e name opts fs])
  case (exits m)
  with assms show ?thesis by auto
next
  case (goes app tr)
  from goes(1) assms have m:
    "materialize e (target_path e name) app \<lparr>files = fs, trace = tr\<rparr> = (out, w')" by simp
  show ?thesis
  proof (cases "out = Finished")
    case False
    with m have "(\<exists>f. out = Unhandled f) \<and> written (trace w') = written tr"
      using materialize_not_Finished [of e "target_path e name" app "\<lparr>files = fs, trace = tr\<rparr>" out w']
      by simp
    with goes(4) show ?thesis by auto
  next
    case True
    with m obtain bytes content where
      srv: "service e URL (JObject [(''schema'', app)]) = Some bytes"
      and tr: "trace w' = tr @
             [Mkdir (target_path e name), Post URL (JObject [(''schema'', app)]),
              Saved (TEMP_FILE e) bytes, Extract (TEMP_FILE e) (target_path e name),
              Rm (TEMP_FILE e), WriteFile (path_join (target_path e name) ''.flatlogicrc'') content]"
      using materialize_Finished [of e "target_path e name" app "\<lparr>files = fs, trace = tr\<rparr>" w']
      by auto
    have "posted (trace w') = [(URL, JObject [(''schema'', app)])]"
      using goes(3) by (simp add: tr posted_append)
    then show ?thesis using srv tr True by (auto simp: sidecar_path_def)
  qed
qed

text \<open>
  Claim C7, witness: with the service down, the run with the four flags posts its request,
  ends with a non-zero status and writes nothing; with the service up, the same run writes
  and finishes.
\<close>

theorem failed_download_writes_no_sidecar_witness:
  "posted (trace (snd (run env_down ''app'' all_flags fs0))) \<noteq> []
   \<and> exit_status (fst (run env_down ''app'' all_flags fs0)) \<noteq> 0
   \<and> written (trace (snd (run env_down ''app'' all_flags fs0))) = []
   \<and> written (trace (snd (run env0 ''app'' all_flags fs0))) \<noteq> []
   \<and> fst (run env0 ''app'' all_flags fs0) = Finished"
proof -
  let ?body = "JObject [(''schema'', flags_application ''app'' all_flags)]"
  obtain out w' where r: "run env_down ''app'' all_flags fs0 = (out, w')"
    by (cases "run env_down ''app'' all_flags fs0")
  have "trace w' = [Mkdir (target_path env0 ''app''), Post URL ?body]"
    using r unfolding run_service_down by auto
  then have p: "posted (trace w') = [(URL, ?body)]" by simp
  have "service env_down URL ?body = None" by (simp add: env_down_def)
  with p have "\<exists>url body. (url, body) \<in> set (posted (trace w')) \<and> service env_down url body = None"
    by auto
  with failed_download_writes_no_sidecar [OF r]
  have down: "exit_status out \<noteq> 0 \<and> written (trace w') = []" by blast
  obtain out2 w2 where r2: "run env0 ''app'' all_flags fs0 = (out2, w2)"
    by (cases "run env0 ''app'' all_flags fs0")
  have "written (trace w2) \<noteq> []" using run_all_flags r2 by auto
  with failed_download_writes_no_sidecar [OF r2]
  have up: "out2 = Finished \<and> written (trace w2) \<noteq> []" by blast
  show ?thesis using p down up by (simp add: r r2)
qed

text \<open>
  Claim C10: the existence check recognizes only regular files and directories. For every
  path at which \<^verbatim>\<open>stat\<close> succeeds but reports neither (a socket or a FIFO, say),
  \<^verbatim>\<open>pathExists\<close> returns \<^verbatim>\<open>undefined\<close>, which is falsy and is not \<^verbatim>\<open>false\<close>; so the
  already-exists message is never printed, and the directory creation that follows fails
  there: a run whose options resolve (no flags, or all four) ends on an unhandled
  file-system error, with the file system as it was.
\<close>

theorem special_node_passes_existence_check:
  assumes "fs (target_path e name) = Some n" and "\<not> isDirectory n" and "\<not> isFile n"
  shows "pathExists fs (target_path e name) = JUndefined
       \<and> pathExists fs (target_path e name) \<noteq> JBool False
       \<and> \<not> truthy (pathExists fs (target_path e name))
       \<and> ErrorRed (exists_message (target_path e name)) \<notin> set (trace (snd (run e name opts fs)))
       \<and> fst (fs_mkdir e (target_path e name) \<lparr>files = fs, trace = tr\<rparr>) = Some FilesystemError
       \<and> files (snd (run e name opts fs)) = fs
       \<and> (opts = [] \<or> first_missing opts = None \<longrightarrow>
            fst (run e name opts fs) = Unhandled FilesystemError)"
proof -
  from assms have u: "pathExists fs (target_path e name) = JUndefined"
    by (simp add: pathExists_def)
  then have free: "\<not> truthy (pathExists fs (target_path e name))" by simp
  have mk: "fst (fs_mkdir e (target_path e name) \<lparr>files = fs, trace = tr\<rparr>) = Some FilesystemError"
    using assms(1) by (simp add: fs_mkdir_def)
  have taken: "\<And>app tr. materialize e (target_path e name) app \<lparr>files = fs, trace = tr\<rparr>
      = (Unhandled FilesystemError, \<lparr>files = fs, trace = tr\<rparr>)"
    using assms(1) by (intro materialize_taken) simp
  have inter: "opts = [] \<Longrightarrow> run e name opts fs
      = (Unhandled FilesystemError, \<lparr>files = fs, trace = [Prompt prompt_names]\<rparr>)"
    using run_interactive [OF free] taken by simp
  have flags: "first_missing opts = None \<Longrightarrow> run e name opts fs
      = (Unhandled FilesystemError, \<lparr>files = fs, trace = []\<rparr>)"
    using run_flags [OF free] taken by simp
  have missing: "\<And>k. opts \<noteq> [] \<Longrightarrow> first_missing opts = Some k \<Longrightarrow> run e name opts fs
      = (Exited 1, \<lparr>files = fs, trace = [ErrorRed (required_message k)]\<rparr>)"
    using free by (rule run_missing)
  have rest: "ErrorRed (exists_message (target_path e name)) \<notin> set (trace (snd (run e name opts fs)))
       \<and> files (snd (run e name opts fs)) = fs
       \<and> (opts = [] \<or> first_missing opts = None \<longrightarrow>
            fst (run e name opts fs) = Unhandled FilesystemError)"
  proof (cases "opts = []")
    case True
    with inter show ?thesis by simp
  next
    case False
    show ?thesis
    proof (cases "first_missing opts")
      case None
      with flags show ?thesis by simp
    next
      case (Some k)
      with missing [OF False Some] False show ?thesis by (simp add: messages_differ [symmetric])
    qed
  qed
  with u mk show ?thesis by simp
qed

text \<open>
  Claim C10, witness: with a socket at \<^verbatim>\<open>/home/user/app\<close>, \<^verbatim>\<open>generate app\<close> with the four
  flags passes the existence check and ends on the unhandled error of \<^verbatim>\<open>mkdir\<close>.
\<close>

theorem special_node_passes_existence_check_witness:
  "pathExists fs_socket (target_path env0 ''app'') = JUndefined
   \<and> ErrorRed (exists_message (target_path env0 ''app''))
        \<notin> set (trace (snd (run env0 ''app'' all_flags fs_socket)))
   \<and> files (snd (run env0 ''app'' all_flags fs_socket)) = fs_socket
   \<and> fst (run env0 ''app'' all_flags fs_socket) = Unhandled FilesystemError"
proof -
  have a: "fs_socket (target_path env0 ''app'') = Some Special"
    by (simp add: example_defs)
  have b: "\<not> isDirectory Special" "\<not> isFile Special"
    by (simp_all add: isDirectory_def isFile_def)
  show ?thesis
    using special_node_passes_existence_check
      [where fs = fs_socket and e = env0 and name = "''app''" and n = Special
        and opts = all_flags, OF a b] all_flags_complete
    by simp
qed

end
